theory Spec2Isabelle
  imports Complex_Main "HOL-Library.AList" "HOL-Library.Log_Nat"
begin

section \<open>JavaScript values and objects\<close>

text \<open>
  Values held in a store. Each JavaScript value has exactly one representation, so that
  HOL equality on \<open>jsval\<close> is \<open>Object.is\<close>: \<open>NaN\<close> equals itself, primitives are
  compared by value and objects (\<open>Ref\<close>, an address) by identity.
\<close>

datatype jsval = Undefined | Null | Bool bool | Num int | NaN | Str string | Ref nat

text \<open>
  A plain object is the list of its own enumerable properties in insertion order.
  A well-formed object has distinct keys.
\<close>

type_synonym obj = "(string \<times> jsval) list"

text \<open>\<open>Object.keys(a)\<close>, \<open>hasOwnProperty\<close> and \<open>a[key]\<close>.\<close>

definition keys :: "obj \<Rightarrow> string list" where
  "keys a = map fst a"

definition hasOwnProperty :: "obj \<Rightarrow> string \<Rightarrow> bool" where
  "hasOwnProperty a k = (map_of a k \<noteq> None)"

definition getProp :: "obj \<Rightarrow> string \<Rightarrow> jsval" where
  "getProp a k = (case map_of a k of None \<Rightarrow> Undefined | Some v \<Rightarrow> v)"

text \<open>
  The object literal \<open>{ ...a, ...b }\<close>: the properties of \<open>a\<close>, then each property of
  \<open>b\<close> in order, overwriting in place a key that is already there and appending a new one.
\<close>

definition spread :: "obj \<Rightarrow> obj \<Rightarrow> obj" where
  "spread a b = fold (\<lambda>(k, v). AList.update k v) b a"

text \<open>
  \<open>shallowEqual\<close> of createStore.ts. Its first test, \<open>Object.is(a, b)\<close> on the two
  objects themselves, is a shortcut whose answer the remaining tests give as well; the
  \<open>typeof\<close> tests hold because both arguments are objects.
\<close>

definition shallowEqual :: "obj \<Rightarrow> obj \<Rightarrow> bool" where
  "shallowEqual a b =
     (if length (keys a) \<noteq> length (keys b) then False
      else list_all (\<lambda>key. hasOwnProperty b key \<and> getProp a key = getProp b key) (keys a))"

section \<open>Browser local storage\<close>

text \<open>
  \<open>localStorage\<close>: the stored items, whether access is denied (every call then throws a
  SecurityError) and the quota in characters (a write that would exceed it throws a
  QuotaExceededError and stores nothing).
\<close>

datatype storage_error = SecurityError | QuotaExceededError

record storage =
  items :: "(string \<times> string) list"
  denied :: bool
  quota :: nat

definition used :: "(string \<times> string) list \<Rightarrow> nat" where
  "used kvs = sum_list (map (\<lambda>(k, v). length k + length v) kvs)"

definition getItem :: "storage \<Rightarrow> string \<Rightarrow> storage_error + string option" where
  "getItem ls k = (if denied ls then Inl SecurityError else Inr (map_of (items ls) k))"

definition setItem :: "storage \<Rightarrow> string \<Rightarrow> string \<Rightarrow> storage_error + storage" where
  "setItem ls k v =
     (if denied ls then Inl SecurityError
      else if quota ls < used (AList.update k v (items ls)) then Inl QuotaExceededError
      else Inr (ls\<lparr>items := AList.update k v (items ls)\<rparr>))"

definition removeItem :: "storage \<Rightarrow> string \<Rightarrow> storage_error + storage" where
  "removeItem ls k =
     (if denied ls then Inl SecurityError
      else Inr (ls\<lparr>items := AList.delete k (items ls)\<rparr>))"

text \<open>
  \<open>JSON.stringify\<close> and \<open>JSON.parse\<close> are built-ins of the platform and are taken as
  parameters; \<open>None\<close> is a thrown exception. \<open>parse\<close> gives the own enumerable
  properties of the parsed value, which is what the spread of createStore reads.
\<close>

record json =
  stringify :: "obj \<Rightarrow> string option"
  parse :: "string \<Rightarrow> obj option"

section \<open>The store of createStore.ts\<close>

text \<open>
  The variables closed over by one store (\<open>state\<close>, \<open>listeners\<close>, \<open>persistKey\<close>,
  \<open>devtools\<close>) together with the part of the browser it acts on: local storage, the
  calls made to listeners so far, and what was sent to the Redux DevTools extension when
  one is installed. Listeners are opaque callbacks, named by a value of type \<open>'l\<close>;
  a call to one is recorded, and it is taken to return without calling back into the
  store. This is the store that \<open>createStore\<close> builds before any middleware wraps it.
\<close>

record 'l store =
  state :: obj
  listeners :: "'l list"
  persistKey :: "string option"
  devtools :: bool
  localStorage :: storage
  notified :: "'l list"
  devtoolsExtension :: bool
  devtoolsSent :: "(obj \<times> obj) list"

datatype partial = PObj obj | PFun "obj \<Rightarrow> obj"

text \<open>The test \<open>persistKey && typeof window !== 'undefined'\<close>, in a browser.\<close>

definition persisting :: "string option \<Rightarrow> string option" where
  "persisting pk = (case pk of None \<Rightarrow> None | Some k \<Rightarrow> if k = [] then None else Some k)"

text \<open>The guarded write of setState: a failure to serialise or to store is swallowed.\<close>

definition persist :: "json \<Rightarrow> string \<Rightarrow> obj \<Rightarrow> storage \<Rightarrow> storage" where
  "persist J k s ls =
     (case stringify J s of
        None \<Rightarrow> ls
      | Some txt \<Rightarrow> (case setItem ls k txt of Inl _ \<Rightarrow> ls | Inr ls' \<Rightarrow> ls'))"

definition setState :: "json \<Rightarrow> partial \<Rightarrow> 'l store \<Rightarrow> 'l store" where
  "setState J partial w =
     (let nextState = (case partial of PFun f \<Rightarrow> f (state w) | PObj p \<Rightarrow> p);
          newState = spread (state w) nextState
      in if \<not> shallowEqual (state w) newState then
           let prevState = state w;
               w1 = w\<lparr>state := newState\<rparr>;
               w2 = (case persisting (persistKey w1) of
                       None \<Rightarrow> w1
                     | Some k \<Rightarrow> w1\<lparr>localStorage := persist J k (state w1) (localStorage w1)\<rparr>);
               w3 = w2\<lparr>notified := notified w2 @ listeners w2\<rparr>
           in if devtools w3 \<and> devtoolsExtension w3
              then w3\<lparr>devtoolsSent := devtoolsSent w3 @ [(prevState, newState)]\<rparr>
              else w3
         else w)"

definition getState :: "'l store \<Rightarrow> obj" where
  "getState w = state w"

definition subscribe :: "'l \<Rightarrow> 'l store \<Rightarrow> 'l store" where
  "subscribe l w = (if l \<in> set (listeners w) then w else w\<lparr>listeners := listeners w @ [l]\<rparr>)"

text \<open>
  \<open>destroy\<close> forgets the listeners and removes the persisted text; \<open>removeItem\<close> is
  not guarded here, so its exception leaves the call (\<open>Inl\<close>) after the listeners are gone.
\<close>

definition destroy :: "'l store \<Rightarrow> storage_error + 'l store" where
  "destroy w =
     (let w1 = w\<lparr>listeners := []\<rparr>
      in case persisting (persistKey w1) of
           None \<Rightarrow> Inr w1
         | Some k \<Rightarrow>
             (case removeItem (localStorage w1) k of
                Inl e \<Rightarrow> Inl e
              | Inr ls \<Rightarrow> Inr (w1\<lparr>localStorage := ls\<rparr>)))"

text \<open>
  The loading step of createStore: the persisted text is read and parsed under one
  \<open>try\<close>, and an absent or empty text is skipped.
\<close>

definition loadPersisted :: "json \<Rightarrow> string option \<Rightarrow> storage \<Rightarrow> obj \<Rightarrow> obj" where
  "loadPersisted J pk ls initialState =
     (case persisting pk of
        None \<Rightarrow> initialState
      | Some k \<Rightarrow>
          (case getItem ls k of
             Inl _ \<Rightarrow> initialState
           | Inr None \<Rightarrow> initialState
           | Inr (Some persisted) \<Rightarrow>
               if persisted = [] then initialState
               else (case parse J persisted of
                       None \<Rightarrow> initialState
                     | Some v \<Rightarrow> spread initialState v)))"

definition createStore ::
  "json \<Rightarrow> obj \<Rightarrow> string option \<Rightarrow> bool \<Rightarrow> storage \<Rightarrow> bool \<Rightarrow> 'l store" where
  "createStore J initialState pk dev ls ext =
     \<lparr>state = loadPersisted J pk ls initialState, listeners = [], persistKey = pk,
      devtools = dev, localStorage = ls, notified = [], devtoolsExtension = ext,
      devtoolsSent = []\<rparr>"

section \<open>Actions: createActions of createStore.ts\<close>

text \<open>
  The wrapped async function, with its arguments already supplied: run on the store, it
  either resolves (\<open>Inr\<close>) or rejects with a thrown value (\<open>Inl\<close>) and leaves the
  store as its own \<open>setState\<close> calls made it. \<open>startTransition\<close> runs its callback
  at once, so the optimistic \<open>setState\<close> happens before the async function starts.
\<close>

type_synonym ('l, 'r) asyncFn = "'l store \<Rightarrow> (jsval + 'r) \<times> 'l store"

definition createAsyncAction ::
  "json \<Rightarrow> string \<Rightarrow> ('l, 'r) asyncFn \<Rightarrow> 'l store \<Rightarrow> (jsval + 'r) \<times> 'l store" where
  "createAsyncAction J name asyncFn w =
     (let loadingKey = name @ ''Loading'';
          errorKey = name @ ''Error'';
          w1 = setState J (PObj [(loadingKey, Bool True), (errorKey, Null)]) w
      in case asyncFn w1 of
           (Inr result, w2) \<Rightarrow> (Inr result, setState J (PObj [(loadingKey, Bool False)]) w2)
         | (Inl error, w2) \<Rightarrow>
             (Inl error, setState J (PObj [(loadingKey, Bool False), (errorKey, error)]) w2))"

definition createOptimisticAction ::
  "json \<Rightarrow> (obj \<Rightarrow> obj) \<Rightarrow> ('l, 'r) asyncFn \<Rightarrow> 'l store \<Rightarrow> (jsval + 'r) \<times> 'l store" where
  "createOptimisticAction J optimisticUpdate asyncFn w =
     (let currentState = getState w;
          w1 = setState J (PObj (optimisticUpdate currentState)) w
      in case asyncFn w1 of
           (Inr result, w2) \<Rightarrow> (Inr result, w2)
         | (Inl error, w2) \<Rightarrow> (Inl error, setState J (PObj currentState) w2))"

text \<open>An async function that rejects with a given value and touches nothing.\<close>

definition rejecting :: "jsval \<Rightarrow> ('l, 'r) asyncFn" where
  "rejecting e w = (Inl e, w)"

definition resolving :: "'r \<Rightarrow> ('l, 'r) asyncFn" where
  "resolving r w = (Inr r, w)"

section \<open>Lazy loading of components: retryImport\<close>

text \<open>
  The \<open>retryCount\<close> of \<open>retryImport\<close> is a JavaScript number, an IEEE 754 double or one
  of the three special values. A finite double is written as the rational it
  denotes; \<open>-0\<close> is identified with \<open>0\<close>, which no operation used here tells apart.
\<close>

datatype jsnum = Finite rat | PosInfinity | NegInfinity | NotANumber

text \<open>
  Rounding of a real result to the nearest double, ties to even: \<open>ilog2 x\<close> is the
  exponent of the leading bit of a positive \<open>x\<close>; a double has 53 significant bits and
  no bits below \<open>2 powi - 1074\<close>; a result that rounds to \<open>2 powi 1024\<close> or more is an
  infinity.
\<close>

definition ilog2 :: "rat \<Rightarrow> int" where
  "ilog2 x = (if 1 \<le> x then bitlen \<lfloor>x\<rfloor> - 1 else - bitlen (\<lceil>1 / x\<rceil> - 1))"

definition roundHalfEven :: "rat \<Rightarrow> int" where
  "roundHalfEven q =
     (let f = \<lfloor>q\<rfloor>; r = q - of_int f
      in if r < 1 / 2 then f else if 1 / 2 < r then f + 1 else if even f then f else f + 1)"

definition binary64 :: "rat \<Rightarrow> jsnum" where
  "binary64 x =
     (if x = 0 then Finite 0
      else
        let e = max (ilog2 \<bar>x\<bar>) (- 1022) - 52;
            m = roundHalfEven (\<bar>x\<bar> / 2 powi e);
            y = of_int m * 2 powi e
        in if 2 powi 1024 \<le> y then (if 0 < x then PosInfinity else NegInfinity)
           else Finite (sgn x * y))"

text \<open>The operators \<open>a - b\<close>, \<open>a * b\<close> and \<open>a > b\<close> on numbers.\<close>

fun js_sub :: "jsnum \<Rightarrow> jsnum \<Rightarrow> jsnum" where
  "js_sub NotANumber b = NotANumber"
| "js_sub a NotANumber = NotANumber"
| "js_sub (Finite x) (Finite y) = binary64 (x - y)"
| "js_sub (Finite x) PosInfinity = NegInfinity"
| "js_sub (Finite x) NegInfinity = PosInfinity"
| "js_sub PosInfinity PosInfinity = NotANumber"
| "js_sub PosInfinity b = PosInfinity"
| "js_sub NegInfinity NegInfinity = NotANumber"
| "js_sub NegInfinity b = NegInfinity"

fun js_mul :: "jsnum \<Rightarrow> jsnum \<Rightarrow> jsnum" where
  "js_mul NotANumber b = NotANumber"
| "js_mul a NotANumber = NotANumber"
| "js_mul (Finite x) (Finite y) = binary64 (x * y)"
| "js_mul (Finite x) PosInfinity =
     (if x = 0 then NotANumber else if 0 < x then PosInfinity else NegInfinity)"
| "js_mul (Finite x) NegInfinity =
     (if x = 0 then NotANumber else if 0 < x then NegInfinity else PosInfinity)"
| "js_mul PosInfinity (Finite y) =
     (if y = 0 then NotANumber else if 0 < y then PosInfinity else NegInfinity)"
| "js_mul NegInfinity (Finite y) =
     (if y = 0 then NotANumber else if 0 < y then NegInfinity else PosInfinity)"
| "js_mul PosInfinity PosInfinity = PosInfinity"
| "js_mul PosInfinity NegInfinity = NegInfinity"
| "js_mul NegInfinity PosInfinity = NegInfinity"
| "js_mul NegInfinity NegInfinity = PosInfinity"

fun js_gt :: "jsnum \<Rightarrow> jsnum \<Rightarrow> bool" where
  "js_gt NotANumber b = False"
| "js_gt a NotANumber = False"
| "js_gt (Finite x) (Finite y) = (y < x)"
| "js_gt (Finite x) PosInfinity = False"
| "js_gt (Finite x) NegInfinity = True"
| "js_gt PosInfinity PosInfinity = False"
| "js_gt PosInfinity b = True"
| "js_gt NegInfinity b = False"

text \<open>
  \<open>Math.pow(2, y)\<close>. At an integer exponent the result is the double nearest to the
  power of two (the power itself wherever a double holds it, \<open>0\<close> below the smallest
  subnormal, \<open>Infinity\<close> above the largest double). At any other exponent the language
  leaves the result to the implementation, so it is the parameter \<open>powFrac\<close>.
\<close>

fun Math_pow2 :: "(rat \<Rightarrow> jsnum) \<Rightarrow> jsnum \<Rightarrow> jsnum" where
  "Math_pow2 powFrac (Finite y) =
     (if of_int \<lfloor>y\<rfloor> = y then binary64 (2 powi \<lfloor>y\<rfloor>) else powFrac y)"
| "Math_pow2 powFrac PosInfinity = PosInfinity"
| "Math_pow2 powFrac NegInfinity = Finite 0"
| "Math_pow2 powFrac NotANumber = NotANumber"

text \<open>
  \<open>retryImport\<close>. The import function has an effect, so it is given as the outcome of
  each of its calls, numbered from the start: \<open>Inr\<close> a loaded module, \<open>Inl\<close> a thrown
  error. The state is the number of calls made so far and the delays passed to
  \<open>setTimeout\<close> so far, in milliseconds. The recursion need not end (a count of
  \<open>Infinity\<close> with an import that always fails never returns), so the result is an
  option and \<open>None\<close> is a call that does not return.
\<close>

partial_function (option) retryImport ::
  "(rat \<Rightarrow> jsnum) \<Rightarrow> (nat \<Rightarrow> 'e + 'a) \<Rightarrow> jsnum \<Rightarrow> nat \<times> jsnum list \<Rightarrow>
   (('e + 'a) \<times> nat \<times> jsnum list) option" where
  "retryImport powFrac importFn retryCount st =
     (case importFn (fst st) of
        Inr v \<Rightarrow> Some (Inr v, Suc (fst st), snd st)
      | Inl error \<Rightarrow>
          if js_gt retryCount (Finite 0) then
            let delay = js_mul (Math_pow2 powFrac (js_sub (Finite 3) retryCount)) (Finite 1000)
            in retryImport powFrac importFn (js_sub retryCount (Finite 1))
                 (Suc (fst st), snd st @ [delay])
          else Some (Inl error, Suc (fst st), snd st))"

text \<open>
  The same recursion in exact arithmetic, on an integer count and with rational
  delays. It is the reference against which the code is compared: for an integer
  count from 0 to 1077 the code computes what this recursion computes.
\<close>

function retryImport_exact ::
  "(nat \<Rightarrow> 'e + 'a) \<Rightarrow> int \<Rightarrow> nat \<times> rat list \<Rightarrow> ('e + 'a) \<times> nat \<times> rat list" where
  "retryImport_exact importFn retryCount (calls, waits) =
     (case importFn calls of
        Inr v \<Rightarrow> (Inr v, Suc calls, waits)
      | Inl error \<Rightarrow>
          if retryCount > 0 then
            let delay = 2 powi (3 - retryCount) * 1000
            in retryImport_exact importFn (retryCount - 1) (Suc calls, waits @ [delay])
          else (Inl error, Suc calls, waits))"
  by pat_completeness auto
termination
  by (relation "measure (\<lambda>(importFn, retryCount, s). nat retryCount)") auto

text \<open>The delay before the \<open>k\<close>-th retry of a call made with a given retry count.\<close>

definition backoff :: "int \<Rightarrow> nat \<Rightarrow> rat" where
  "backoff retryCount k = 2 powi (3 - retryCount + int k - 1) * 1000"

text \<open>
  An import that fails on every call, one that loads on its third call and one that
  loads on its second call.
\<close>

definition alwaysFails :: "nat \<Rightarrow> string + nat" where
  "alwaysFails i = Inl ''Loading chunk failed''"

definition thirdTime :: "nat \<Rightarrow> string + nat" where
  "thirdTime i = (if i = 2 then Inr 42 else Inl ''Loading chunk failed'')"

definition secondTime :: "nat \<Rightarrow> string + nat" where
  "secondTime i = (if i = 1 then Inr 42 else Inl ''Loading chunk failed'')"

text \<open>
  A \<open>Math.pow\<close> that answers \<open>NaN\<close> at every exponent that is not an integer, and two
  retry counts: 1078, whose first delay is below the smallest double, and one half.
\<close>

definition noPowFrac :: "rat \<Rightarrow> jsnum" where
  "noPowFrac y = NotANumber"

definition underflowCount :: jsnum where
  "underflowCount = Finite 1078"

definition halfCount :: jsnum where
  "halfCount = Finite (1 / 2)"

section \<open>AdvancedErrorBoundary.tsx\<close>

datatype level = Page | Feature | Component

text \<open>
  The props: \<open>'n\<close> is what is rendered (a React node), \<open>'e\<close> an error, \<open>'i\<close> React's
  error info. The second argument of \<open>fallback\<close> is always \<open>this.manualRetry\<close> and is
  left out. \<open>onError\<close> is an opaque callback: its value says whether it returns
  (\<open>True\<close>) or throws.
\<close>

record ('n, 'e, 'i) props =
  children :: 'n
  fallback :: "('e \<Rightarrow> 'n) option"
  onError :: "('e \<Rightarrow> 'i \<Rightarrow> bool) option"
  level :: "level option"
  identifierProp :: "string option"

text \<open>
  One mounted boundary: its React state (\<open>hasError\<close>, \<open>error\<close>, \<open>errorInfo\<close>,
  \<open>retryCount\<close>), its private field \<open>retryTimeoutId\<close>, and the browser timers it has
  set: the pending ones as (id, delay in ms), the next free id, and every delay ever passed
  to \<open>setTimeout\<close>.
\<close>

record ('e, 'i) boundary =
  hasError :: bool
  error :: "'e option"
  errorInfo :: "'i option"
  retryCount :: nat
  retryTimeoutId :: "nat option"
  timers :: "(nat \<times> nat) list"
  nextTimerId :: nat
  scheduled :: "nat list"

definition maxRetries :: nat where
  "maxRetries = 3"

definition mount :: "('e, 'i) boundary" where
  "mount = \<lparr>hasError = False, error = None, errorInfo = None, retryCount = 0,
            retryTimeoutId = None, timers = [], nextTimerId = 1, scheduled = []\<rparr>"

definition getDerivedStateFromError :: "'e \<Rightarrow> ('e, 'i) boundary \<Rightarrow> ('e, 'i) boundary" where
  "getDerivedStateFromError err b = b\<lparr>hasError := True, error := Some err\<rparr>"

definition clearTimeout :: "nat \<Rightarrow> ('e, 'i) boundary \<Rightarrow> ('e, 'i) boundary" where
  "clearTimeout tid b = b\<lparr>timers := filter (\<lambda>(t, d). t \<noteq> tid) (timers b)\<rparr>"

definition setTimeout :: "nat \<Rightarrow> ('e, 'i) boundary \<Rightarrow> nat \<times> ('e, 'i) boundary" where
  "setTimeout delay b =
     (nextTimerId b,
      b\<lparr>timers := timers b @ [(nextTimerId b, delay)], nextTimerId := Suc (nextTimerId b),
        scheduled := scheduled b @ [delay]\<rparr>)"

definition scheduleRetry :: "('e, 'i) boundary \<Rightarrow> ('e, 'i) boundary" where
  "scheduleRetry b =
     (let b1 = (case retryTimeoutId b of None \<Rightarrow> b | Some tid \<Rightarrow> clearTimeout tid b);
          delay = 2 ^ retryCount b1 * 1000;
          (tid, b2) = setTimeout delay b1
      in b2\<lparr>retryTimeoutId := Some tid\<rparr>)"

definition retry :: "('e, 'i) boundary \<Rightarrow> ('e, 'i) boundary" where
  "retry b = b\<lparr>hasError := False, error := None, errorInfo := None,
               retryCount := retryCount b + 1\<rparr>"

definition manualRetry :: "('e, 'i) boundary \<Rightarrow> ('e, 'i) boundary" where
  "manualRetry b = b\<lparr>hasError := False, error := None, errorInfo := None, retryCount := 0\<rparr>"

text \<open>A pending timer fires: it leaves the pending list and its callback \<open>retry\<close> runs.\<close>

definition timerFires :: "nat \<Rightarrow> ('e, 'i) boundary \<Rightarrow> ('e, 'i) boundary" where
  "timerFires tid b =
     (if tid \<in> fst ` set (timers b) then retry (clearTimeout tid b) else b)"

text \<open>
  The context that \<open>reportError\<close> of the boundary hands to the error reporting service
  (the fields read from the browser are left out).
\<close>

record reportContext =
  ctxLevel :: string
  ctxIdentifier :: "string option"
  ctxRetryCount :: nat

definition levelName :: "level \<Rightarrow> string" where
  "levelName l = (case l of Page \<Rightarrow> ''page'' | Feature \<Rightarrow> ''feature'' | Component \<Rightarrow> ''component'')"

definition boundaryContext :: "('n, 'e, 'i) props \<Rightarrow> ('e, 'i) boundary \<Rightarrow> reportContext" where
  "boundaryContext p b =
     \<lparr>ctxLevel = (case level p of None \<Rightarrow> ''unknown'' | Some l \<Rightarrow> levelName l),
      ctxIdentifier = identifierProp p, ctxRetryCount = retryCount b\<rparr>"

text \<open>
  \<open>componentDidCatch\<close>. The reporting service is a parameter that says whether the call
  returns or throws; an exception thrown by it or by \<open>onError\<close> leaves the method
  (\<open>None\<close>) before any retry is scheduled.
\<close>

definition componentDidCatch ::
  "('e \<Rightarrow> reportContext \<Rightarrow> bool) \<Rightarrow> ('n, 'e, 'i) props \<Rightarrow> 'e \<Rightarrow> 'i \<Rightarrow>
   ('e, 'i) boundary \<Rightarrow> ('e, 'i) boundary option" where
  "componentDidCatch reportError p err info b =
     (let b1 = b\<lparr>error := Some err, errorInfo := Some info\<rparr>
      in if \<not> reportError err (boundaryContext p b) then None
         else if (case onError p of None \<Rightarrow> False | Some f \<Rightarrow> \<not> f err info) then None
         else if level p = Some Component \<and> retryCount b < maxRetries
              then Some (scheduleRetry b1)
              else Some b1)"

text \<open>What a boundary renders.\<close>

datatype ('n, 'e) view =
    Children 'n
  | CustomFallback 'n
  | PageError "'e option"
  | FeatureUnavailable "nat option" bool
  | ComponentFailed bool bool

text \<open>
  \<open>renderDefaultFallback\<close>. The page panel shows the error in development only; the
  feature panel shows the attempt number while retrying and otherwise the Try Again button
  when a retry is allowed; the component panel shows the Retrying line and the Retry button
  under the same two tests.
\<close>

definition renderDefaultFallback ::
  "bool \<Rightarrow> ('n, 'e, 'i) props \<Rightarrow> ('e, 'i) boundary \<Rightarrow> ('n, 'e) view" where
  "renderDefaultFallback development p b =
     (let lvl = (case level p of None \<Rightarrow> Component | Some l \<Rightarrow> l);
          isRetrying = (retryCount b > 0 \<and> retryCount b < maxRetries);
          canRetry = (retryCount b < maxRetries)
      in case lvl of
           Page \<Rightarrow> PageError (if development then error b else None)
         | Feature \<Rightarrow>
             FeatureUnavailable (if isRetrying then Some (retryCount b) else None)
               (canRetry \<and> \<not> isRetrying)
         | Component \<Rightarrow> ComponentFailed isRetrying (canRetry \<and> \<not> isRetrying))"

text \<open>
  Truthiness of a JavaScript value: \<open>undefined\<close>, \<open>null\<close>, \<open>false\<close>, \<open>0\<close>, \<open>NaN\<close>
  and the empty string are falsy.
\<close>

definition truthy :: "jsval \<Rightarrow> bool" where
  "truthy v =
     (case v of
        Undefined \<Rightarrow> False
      | Null \<Rightarrow> False
      | Bool b \<Rightarrow> b
      | Num n \<Rightarrow> n \<noteq> 0
      | NaN \<Rightarrow> False
      | Str t \<Rightarrow> t \<noteq> []
      | Ref a \<Rightarrow> True)"

text \<open>
  \<open>render\<close>. The captured error is whatever value was thrown, and the test
  \<open>this.state.hasError && this.state.error\<close> is a test of truthiness: a stored \<open>null\<close>
  (\<open>None\<close>) and a stored falsy value both lead to the children.
\<close>

definition render ::
  "bool \<Rightarrow> ('n, jsval, 'i) props \<Rightarrow> (jsval, 'i) boundary \<Rightarrow> ('n, jsval) view" where
  "render development p b =
     (case error b of
        None \<Rightarrow> Children (children p)
      | Some err \<Rightarrow>
          if hasError b \<and> truthy err then
            (case fallback p of
               Some f \<Rightarrow> CustomFallback (f err)
             | None \<Rightarrow> renderDefaultFallback development p b)
          else Children (children p))"

text \<open>A component-level boundary around a widget, with a reporting service that returns.\<close>

definition widgetProps :: "(string, string, string) props" where
  "widgetProps = \<lparr>children = ''<Widget/>'', fallback = None, onError = None,
                  level = Some Component, identifierProp = Some ''widget''\<rparr>"

definition reportOk :: "string \<Rightarrow> reportContext \<Rightarrow> bool" where
  "reportOk err ctx = True"

text \<open>
  The widget throws, the boundary catches it and its timer fires, the given number of
  times in a row; the result is the boundary after the last catch.
\<close>

primrec crashLoop :: "nat \<Rightarrow> (string, string) boundary \<Rightarrow> (string, string) boundary option" where
  "crashLoop 0 b = Some b"
| "crashLoop (Suc n) b =
     (case componentDidCatch reportOk widgetProps ''boom'' ''at Widget''
             (getDerivedStateFromError ''boom'' b) of
        None \<Rightarrow> None
      | Some b' \<Rightarrow>
          (case n of
             0 \<Rightarrow> Some b'
           | Suc m \<Rightarrow> (case retryTimeoutId b' of
                          None \<Rightarrow> None
                        | Some tid \<Rightarrow> crashLoop n (timerFires tid b'))))"

section \<open>The error reporting service of errorReporting.ts\<close>

datatype severity = Low | Medium | High | Critical

record jsError =
  errName :: string
  errMessage :: string
  errStack :: "string option"

text \<open>
  \<open>ErrorContext\<close>: its declared optional fields, and the further properties its index
  signature admits.
\<close>

record errorContext =
  ctxLevelOpt :: "string option"
  ctxIdentifierOpt :: "string option"
  ctxComponentStack :: "string option"
  ctxRetryCountOpt :: "int option"
  ctxUserAgent :: "string option"
  ctxUrl :: "string option"
  ctxTimestamp :: "string option"
  ctxUserId :: "string option"
  ctxSessionId :: "string option"
  ctxOther :: obj

record errorReport =
  repError :: jsError
  repContext :: errorContext
  fingerprint :: string
  repSeverity :: severity

text \<open>What \<open>reportError\<close> reads from the browser.\<close>

record browser =
  nowISO :: string
  navigatorUserAgent :: string
  locationHref :: string
  viewport :: string
  navigatorLanguage :: string

record service =
  errors :: "errorReport list"
  sessionId :: string
  isOnline :: bool
  serviceStorage :: storage

definition maxErrors :: nat where
  "maxErrors = 100"

text \<open>\<open>s.includes(t)\<close> and \<open>xs.slice(-n)\<close> for \<open>n > 0\<close>.\<close>

fun str_includes :: "string \<Rightarrow> string \<Rightarrow> bool" where
  "str_includes [] t = (t = [])"
| "str_includes (c # cs) t = (take (length t) (c # cs) = t \<or> str_includes cs t)"

definition slice_last :: "nat \<Rightarrow> 'a list \<Rightarrow> 'a list" where
  "slice_last n xs = drop (length xs - n) xs"

text \<open>\<open>a || b\<close> on an optional string: the empty string is falsy as well.\<close>

definition orElse :: "string option \<Rightarrow> string \<Rightarrow> string" where
  "orElse a b = (case a of None \<Rightarrow> b | Some t \<Rightarrow> if t = [] then b else t)"

text \<open>An optional string inside a template literal.\<close>

definition template :: "string option \<Rightarrow> string" where
  "template a = (case a of None \<Rightarrow> ''undefined'' | Some t \<Rightarrow> t)"

text \<open>
  \<open>generateFingerprint\<close>. \<open>btoa\<close> is a browser built-in and a parameter; it throws
  (\<open>None\<close>) on a string with a character above U+00FF.
\<close>

definition generateFingerprint ::
  "(string \<Rightarrow> string option) \<Rightarrow> jsError \<Rightarrow> errorContext \<Rightarrow> string option" where
  "generateFingerprint btoa err ctx =
     (let key = errName err @ ''_'' @ errMessage err @ ''_'' @ template (ctxLevelOpt ctx)
                @ ''_'' @ template (ctxIdentifierOpt ctx)
      in case btoa key of
           None \<Rightarrow> None
         | Some b \<Rightarrow> Some (take 16 (filter (\<lambda>c. c \<notin> set ''+/='') b)))"

definition determineSeverity :: "jsError \<Rightarrow> errorContext \<Rightarrow> severity" where
  "determineSeverity err ctx =
     (if ctxLevelOpt ctx = Some ''page'' \<or> str_includes (errMessage err) ''auth'' then Critical
      else if ctxLevelOpt ctx = Some ''feature'' \<or> str_includes (errMessage err) ''fetch''
              \<or> str_includes (errMessage err) ''network'' then High
      else if ctxLevelOpt ctx = Some ''component''
              \<and> (case ctxRetryCountOpt ctx of None \<Rightarrow> False | Some n \<Rightarrow> n > 0) then Medium
      else Low)"

text \<open>
  \<open>storeError\<close>. The serialiser of a list of reports is \<open>JSON.stringify\<close>, a
  parameter; a failure to serialise or to write is swallowed by the \<open>catch\<close>.
\<close>

definition storeError ::
  "(errorReport list \<Rightarrow> string option) \<Rightarrow> errorReport \<Rightarrow> service \<Rightarrow> service" where
  "storeError stringifyReports errorReport svc =
     (let pushed = errors svc @ [errorReport];
          kept = (if length pushed > maxErrors then slice_last maxErrors pushed else pushed);
          svc1 = svc\<lparr>errors := kept\<rparr>
      in case stringifyReports (slice_last 10 kept) of
           None \<Rightarrow> svc1
         | Some txt \<Rightarrow>
             (case setItem (serviceStorage svc1) ''error_reports'' txt of
                Inl _ \<Rightarrow> svc1
              | Inr ls \<Rightarrow> svc1\<lparr>serviceStorage := ls\<rparr>))"

text \<open>
  The report that \<open>reportError\<close> builds; building it throws when \<open>btoa\<close> does.
\<close>

definition buildReport ::
  "(string \<Rightarrow> string option) \<Rightarrow> browser \<Rightarrow> string \<Rightarrow> jsError \<Rightarrow> errorContext \<Rightarrow>
   errorReport option" where
  "buildReport btoa br sid err ctx =
     (case generateFingerprint btoa err ctx of
        None \<Rightarrow> None
      | Some fp \<Rightarrow>
          Some \<lparr>repError = err,
                repContext = ctx\<lparr>
                  ctxTimestamp := Some (orElse (ctxTimestamp ctx) (nowISO br)),
                  ctxUserAgent := Some (orElse (ctxUserAgent ctx) (navigatorUserAgent br)),
                  ctxUrl := Some (orElse (ctxUrl ctx) (locationHref br)),
                  ctxSessionId := Some sid,
                  ctxOther := spread (ctxOther ctx)
                    [(''viewport'', Str (viewport br)), (''language'', Str (navigatorLanguage br))]\<rparr>,
                fingerprint = fp,
                repSeverity = determineSeverity err ctx\<rparr>)"

text \<open>
  \<open>reportError\<close>: build the report, store it, and hand it to \<open>sendError\<close> when online.
  \<open>sendError\<close> awaits a mock API and catches its failure; it does not touch the list of
  errors and is left out. The result says whether the call returned (\<open>True\<close>) or threw.
\<close>

definition reportError ::
  "(string \<Rightarrow> string option) \<Rightarrow> (errorReport list \<Rightarrow> string option) \<Rightarrow> browser \<Rightarrow>
   jsError \<Rightarrow> errorContext \<Rightarrow> service \<Rightarrow> bool \<times> service" where
  "reportError btoa stringifyReports br err ctx svc =
     (case buildReport btoa br (sessionId svc) err ctx of
        None \<Rightarrow> (False, svc)
      | Some errorReport \<Rightarrow> (True, storeError stringifyReports errorReport svc))"

definition clearErrors :: "service \<Rightarrow> service" where
  "clearErrors svc =
     (case removeItem (serviceStorage svc) ''error_reports'' of
        Inl _ \<Rightarrow> svc\<lparr>errors := []\<rparr>
      | Inr ls \<Rightarrow> svc\<lparr>errors := [], serviceStorage := ls\<rparr>)"

text \<open>The service as its constructor leaves it.\<close>

definition newService :: "string \<Rightarrow> bool \<Rightarrow> storage \<Rightarrow> service" where
  "newService sid online ls =
     \<lparr>errors = [], sessionId = sid, isOnline = online, serviceStorage = ls\<rparr>"

text \<open>A run of \<open>reportError\<close> calls, and the reports that those calls built, in order.\<close>

fun reportAll ::
  "(string \<Rightarrow> string option) \<Rightarrow> (errorReport list \<Rightarrow> string option) \<Rightarrow> browser \<Rightarrow>
   (jsError \<times> errorContext) list \<Rightarrow> service \<Rightarrow> service" where
  "reportAll btoa stringifyReports br [] svc = svc"
| "reportAll btoa stringifyReports br ((err, ctx) # rest) svc =
     reportAll btoa stringifyReports br rest
       (snd (reportError btoa stringifyReports br err ctx svc))"

definition reportsBuilt ::
  "(string \<Rightarrow> string option) \<Rightarrow> browser \<Rightarrow> string \<Rightarrow> (jsError \<times> errorContext) list \<Rightarrow>
   errorReport list" where
  "reportsBuilt btoa br sid calls =
     List.map_filter (\<lambda>(err, ctx). buildReport btoa br sid err ctx) calls"

section \<open>Form validation: login.schema.ts\<close>

subsection \<open>Regular expressions\<close>

datatype 'a regex =
    Never
  | Empty
  | Class "'a \<Rightarrow> bool"
  | Alt "'a regex" "'a regex"
  | Seq "'a regex" "'a regex"
  | Star "'a regex"

text \<open>\<open>r+\<close>.\<close>

definition OneOrMore :: "'a regex \<Rightarrow> 'a regex" where
  "OneOrMore r = Seq r (Star r)"

text \<open>Matching by derivatives: \<open>regex_test r w\<close> is \<open>/^r$/.test(w)\<close>.\<close>

fun nullable :: "'a regex \<Rightarrow> bool" where
  "nullable Never = False"
| "nullable Empty = True"
| "nullable (Class P) = False"
| "nullable (Alt r s) = (nullable r \<or> nullable s)"
| "nullable (Seq r s) = (nullable r \<and> nullable s)"
| "nullable (Star r) = True"

fun deriv :: "'a \<Rightarrow> 'a regex \<Rightarrow> 'a regex" where
  "deriv a Never = Never"
| "deriv a Empty = Never"
| "deriv a (Class P) = (if P a then Empty else Never)"
| "deriv a (Alt r s) = Alt (deriv a r) (deriv a s)"
| "deriv a (Seq r s) =
     (if nullable r then Alt (Seq (deriv a r) s) (deriv a s) else Seq (deriv a r) s)"
| "deriv a (Star r) = Seq (deriv a r) (Star r)"

fun regex_test :: "'a regex \<Rightarrow> 'a list \<Rightarrow> bool" where
  "regex_test r [] = nullable r"
| "regex_test r (a # w) = regex_test (deriv a r) w"

text \<open>The language of a regular expression, the meaning of ``matches the pattern''.\<close>

inductive_set star :: "'a list set \<Rightarrow> 'a list set" for L :: "'a list set" where
  star_nil: "[] \<in> star L"
| star_app: "u \<in> L \<Longrightarrow> v \<in> star L \<Longrightarrow> u @ v \<in> star L"

fun lang :: "'a regex \<Rightarrow> 'a list set" where
  "lang Never = {}"
| "lang Empty = {[]}"
| "lang (Class P) = {[a] |a. P a}"
| "lang (Alt r s) = lang r \<union> lang s"
| "lang (Seq r s) = {u @ v |u v. u \<in> lang r \<and> v \<in> lang s}"
| "lang (Star r) = star (lang r)"


subsection \<open>The schema\<close>

text \<open>A JavaScript string is a list of UTF-16 code units; its \<open>length\<close> counts them.\<close>

type_synonym jsstring = "nat list"

definition utf16 :: "string \<Rightarrow> jsstring" where
  "utf16 s = map of_char s"

text \<open>The class \<open>\s\<close>: the white space and line terminator code units of ECMAScript.\<close>

definition whitespace :: "nat \<Rightarrow> bool" where
  "whitespace c =
     (c \<in> {9, 10, 11, 12, 13, 32, 160, 5760, 8232, 8233, 8239, 8287, 12288, 65279}
      \<or> (8192 \<le> c \<and> c \<le> 8202))"

text \<open>The class \<open>[^\s@]\<close>.\<close>

definition notSpaceOrAt :: "nat \<Rightarrow> bool" where
  "notSpaceOrAt c = (\<not> whitespace c \<and> c \<noteq> 64)"

text \<open>\<open>/^[^\s@]+@[^\s@]+\.[^\s@]+$/\<close>\<close>

definition emailRegex :: "nat regex" where
  "emailRegex =
     Seq (OneOrMore (Class notSpaceOrAt))
       (Seq (Class (\<lambda>c. c = 64))
         (Seq (OneOrMore (Class notSpaceOrAt))
           (Seq (Class (\<lambda>c. c = 46)) (OneOrMore (Class notSpaceOrAt)))))"

text \<open>The class \<open>[a-zA-Z0-9_.-]\<close> and \<open>/^[a-zA-Z0-9_.-]+$/\<close>.\<close>

definition usernameChar :: "nat \<Rightarrow> bool" where
  "usernameChar c =
     ((97 \<le> c \<and> c \<le> 122) \<or> (65 \<le> c \<and> c \<le> 90) \<or> (48 \<le> c \<and> c \<le> 57)
      \<or> c = 95 \<or> c = 46 \<or> c = 45)"

definition usernameRegex :: "nat regex" where
  "usernameRegex = OneOrMore (Class usernameChar)"

text \<open>The function given to \<open>refine\<close>.\<close>

definition emailOrUsernameRefinement :: "jsstring \<Rightarrow> bool" where
  "emailOrUsernameRefinement v =
     (let isEmail = regex_test emailRegex v;
          isUsername = (length v \<ge> 3 \<and> regex_test usernameRegex v)
      in isEmail \<or> isUsername)"

text \<open>
  zod is a library outside the repository. The part of it that \<open>loginSchema\<close> uses:
  \<open>z.string()\<close> raises the single issue \<open>invalid_type\<close> on a value that is not a
  string and otherwise runs its checks in order, collecting the issue of each one that
  fails (\<open>min\<close>, \<open>max\<close> and \<open>refine\<close> do not stop the others); \<open>z.object\<close> parses
  each declared key, drops the others, and succeeds when no issue was raised. The message
  of \<open>invalid_type\<close> is the library's own and is not modelled.
\<close>

datatype zvalue = ZString jsstring | ZUndefined | ZOther

datatype issue_code = invalid_type | too_small | too_big | custom

type_synonym issue = "issue_code \<times> string option"

definition z_min :: "nat \<Rightarrow> string \<Rightarrow> jsstring \<Rightarrow> issue option" where
  "z_min n msg s = (if length s < n then Some (too_small, Some msg) else None)"

definition z_max :: "nat \<Rightarrow> string \<Rightarrow> jsstring \<Rightarrow> issue option" where
  "z_max n msg s = (if length s > n then Some (too_big, Some msg) else None)"

definition z_refine :: "(jsstring \<Rightarrow> bool) \<Rightarrow> string \<Rightarrow> jsstring \<Rightarrow> issue option" where
  "z_refine f msg s = (if f s then None else Some (custom, Some msg))"

definition z_string :: "(jsstring \<Rightarrow> issue option) list \<Rightarrow> zvalue \<Rightarrow> issue list" where
  "z_string checks v =
     (case v of
        ZString s \<Rightarrow> List.map_filter (\<lambda>check. check s) checks
      | _ \<Rightarrow> [(invalid_type, None)])"

text \<open>
  The input object, read at the two declared keys; an absent key reads \<open>ZUndefined\<close>.
  The result of \<open>safeParse\<close> is the parsed data or the issues, each with its path.
\<close>

record loginInput =
  emailOrUsername :: zvalue
  password :: zvalue

datatype loginFormData = LoginFormData jsstring jsstring

definition loginSchema :: "loginInput \<Rightarrow> (string \<times> issue) list + loginFormData" where
  "loginSchema inp =
     (let issues =
            map (Pair ''emailOrUsername'')
              (z_string
                 [z_min 1 ''Username or email is required'',
                  z_refine emailOrUsernameRefinement
                    ''Please enter a valid email address or username (min 3 characters)'']
                 (emailOrUsername inp))
            @ map (Pair ''password'')
              (z_string
                 [z_min 6 ''Password must be at least 6 characters'',
                  z_max 128 ''Password must be less than 128 characters'']
                 (password inp))
      in case (issues, emailOrUsername inp, password inp) of
           ([], ZString e, ZString p) \<Rightarrow> Inr (LoginFormData e p)
         | _ \<Rightarrow> Inl issues)"


text \<open>The strings of the email pattern, spelled out.\<close>

definition matchesEmailPattern :: "jsstring \<Rightarrow> bool" where
  "matchesEmailPattern e =
     (\<exists>a b c. e = a @ [64] @ b @ [46] @ c \<and> a \<noteq> [] \<and> b \<noteq> [] \<and> c \<noteq> []
        \<and> list_all notSpaceOrAt (a @ b @ c))"


text \<open>
  A small stand-in for the two JSON built-ins, to run the model on concrete inputs: it
  writes an object as the concatenation of its keys and reads back a single text.
\<close>

definition sampleJSON :: json where
  "sampleJSON =
     \<lparr>stringify = (\<lambda>s. Some (concat (map fst s))),
      parse = (\<lambda>t. if t = ''theme'' then Some [(''theme'', Str ''dark'')] else None)\<rparr>"

definition sampleStore :: "nat store" where
  "sampleStore =
     \<lparr>state = [(''count'', Num 0), (''user'', Null)], listeners = [1, 2],
      persistKey = Some ''app'', devtools = True,
      localStorage = \<lparr>items = [], denied = False, quota = 100\<rparr>, notified = [],
      devtoolsExtension = True, devtoolsSent = []\<rparr>"

text \<open>A local storage that is full: every write exceeds the quota.\<close>

definition fullStorage :: storage where
  "fullStorage = \<lparr>items = [], denied = False, quota = 0\<rparr>"

definition savedStorage :: storage where
  "savedStorage = \<lparr>items = [(''app'', ''theme'')], denied = False, quota = 100\<rparr>"

text \<open>Stand-ins for \<open>btoa\<close>, the serialiser of reports and the browser, and a sample error.\<close>

definition sampleBtoa :: "string \<Rightarrow> string option" where
  "sampleBtoa t = Some (rev t)"

definition sampleStringifyReports :: "errorReport list \<Rightarrow> string option" where
  "sampleStringifyReports rs = Some (concat (map (\<lambda>r. errName (repError r) @ '';'') rs))"

definition sampleBrowser :: browser where
  "sampleBrowser = \<lparr>nowISO = ''2025-01-01T00:00:00.000Z'', navigatorUserAgent = ''UA'',
                    locationHref = ''http://localhost/'', viewport = ''800x600'',
                    navigatorLanguage = ''en''\<rparr>"

definition typeError :: jsError where
  "typeError = \<lparr>errName = ''TypeError'', errMessage = ''x is undefined'', errStack = None\<rparr>"

definition pageContext :: errorContext where
  "pageContext = \<lparr>ctxLevelOpt = Some ''page'', ctxIdentifierOpt = None, ctxComponentStack = None,
                  ctxRetryCountOpt = None, ctxUserAgent = None, ctxUrl = None,
                  ctxTimestamp = None, ctxUserId = None, ctxSessionId = None, ctxOther = []\<rparr>"

definition sampleService :: service where
  "sampleService = newService ''session_1'' True \<lparr>items = [], denied = False, quota = 100\<rparr>"

text \<open>A login that validates and one that does not.\<close>

definition sampleLogin :: loginInput where
  "sampleLogin = \<lparr>emailOrUsername = ZString (utf16 ''ana@example.com''),
                  password = ZString (utf16 ''secret1'')\<rparr>"

definition badLogin :: loginInput where
  "badLogin = \<lparr>emailOrUsername = ZString (utf16 ''a b''), password = ZString (utf16 ''abc'')\<rparr>"


text \<open>
  An async function that, like \<open>login\<close>, calls \<open>setState\<close> itself before it resolves:
  here it writes a message into \<open>loginError\<close>.
\<close>

definition staleError :: "(nat, nat) asyncFn" where
  "staleError w = (Inr 7, setState sampleJSON (PObj [(''loginError'', Str ''stale'')]) w)"

text \<open>
  Ten errors named \<open>a\<close> to \<open>j\<close> and one with a longer name, a service whose local
  storage has room for the first ten serialised names only, and errors numbered by the
  length of their name.
\<close>

definition letterError :: "char \<Rightarrow> jsError \<times> errorContext" where
  "letterError c = (\<lparr>errName = [c], errMessage = ''boom'', errStack = None\<rparr>, pageContext)"

definition overflowError :: jsError where
  "overflowError = \<lparr>errName = ''overflow'', errMessage = ''boom'', errStack = None\<rparr>"

definition tenErrors :: "(jsError \<times> errorContext) list" where
  "tenErrors = map letterError ''abcdefghij''"

definition elevenErrors :: "(jsError \<times> errorContext) list" where
  "elevenErrors = tenErrors @ [(overflowError, pageContext)]"

definition tightService :: service where
  "tightService = newService ''session_1'' True \<lparr>items = [], denied = False, quota = 33\<rparr>"

definition numberedName :: "nat \<Rightarrow> string" where
  "numberedName i = replicate i CHR ''x''"

definition numberedError :: "nat \<Rightarrow> jsError \<times> errorContext" where
  "numberedError i = (\<lparr>errName = numberedName i, errMessage = ''boom'', errStack = None\<rparr>, pageContext)"

definition reportName :: "errorReport \<Rightarrow> string" where
  "reportName r = errName (repError r)"

text \<open>
  A feature-level boundary around a panel whose \<open>onError\<close> callback throws, for
  instance by throwing again the error it is given, and a reporting service that returns.
\<close>

definition panelProps :: "(string, jsval, string) props" where
  "panelProps = \<lparr>children = ''<Panel/>'', fallback = None,
                 onError = Some (\<lambda>err info. False), level = Some Feature,
                 identifierProp = Some ''panel''\<rparr>"

definition reportReturns :: "jsval \<Rightarrow> reportContext \<Rightarrow> bool" where
  "reportReturns err ctx = True"

definition emptyString :: jsval where
  "emptyString = Str []"

text \<open>The relation the specification calls shallow equality: same keys, identical values.\<close>

definition same_keys_and_values :: "obj \<Rightarrow> obj \<Rightarrow> bool" where
  "same_keys_and_values a b =
     (set (keys a) = set (keys b) \<and> list_all (\<lambda>k. getProp a k = getProp b k) (keys a))"

definition resolve :: "partial \<Rightarrow> obj \<Rightarrow> obj" where
  "resolve partial s = (case partial of PFun f \<Rightarrow> f s | PObj p \<Rightarrow> p)"

section \<open>Properties of objects\<close>

lemma keys_update:
  "keys (AList.update k v a) = (if k \<in> set (keys a) then keys a else keys a @ [k])"
  by (simp add: keys_def update_keys)

lemma map_of_spread:
  "map_of (spread a b) k = (case map_of (rev b) k of Some v \<Rightarrow> Some v | None \<Rightarrow> map_of a k)"
proof (induction b arbitrary: a)
  case Nil
  then show ?case by (simp add: spread_def)
next
  case (Cons x b)
  obtain k' v' where x: "x = (k', v')" by (cases x)
  have "spread a (x # b) = spread (AList.update k' v' a) b"
    by (simp add: spread_def x)
  then show ?case
    using Cons.IH [of "AList.update k' v' a"]
    by (auto simp: x update_conv' map_add_def split: option.splits)
qed

lemma map_of_rev_distinct:
  "distinct (map fst b) \<Longrightarrow> map_of (rev b) = map_of b"
  using map_of_inject_set [of "rev b" b] by (simp add: rev_map [symmetric])

lemma map_of_spread_distinct:
  "distinct (map fst b) \<Longrightarrow>
   map_of (spread a b) k = (case map_of b k of Some v \<Rightarrow> Some v | None \<Rightarrow> map_of a k)"
  by (simp add: map_of_spread map_of_rev_distinct)

lemma keys_spread_prefix: "\<exists>ks. keys (spread a b) = keys a @ ks"
proof (induction b arbitrary: a)
  case Nil
  then show ?case by (simp add: spread_def)
next
  case (Cons x b)
  obtain k' v' where x: "x = (k', v')" by (cases x)
  have s: "spread a (x # b) = spread (AList.update k' v' a) b"
    by (simp add: spread_def x)
  obtain ks where "keys (spread (AList.update k' v' a) b) = keys (AList.update k' v' a) @ ks"
    using Cons.IH by blast
  then show ?case
    by (cases "k' \<in> set (keys a)") (simp_all add: s keys_update)
qed

lemma keys_spread_subset: "set (keys a) \<subseteq> set (keys (spread a b))"
  using keys_spread_prefix [of a b] by auto

lemma distinct_spread: "distinct (keys a) \<Longrightarrow> distinct (keys (spread a b))"
proof (induction b arbitrary: a)
  case Nil
  then show ?case by (simp add: spread_def)
next
  case (Cons x b)
  obtain k' v' where x: "x = (k', v')" by (cases x)
  have "distinct (keys (AList.update k' v' a))"
    using Cons.prems by (simp add: keys_def distinct_update)
  then show ?case
    using Cons.IH [of "AList.update k' v' a"] by (simp add: spread_def x)
qed

text \<open>
  When the merged object is shallow-equal to the state it was merged into, the two have the
  same properties.
\<close>

lemma shallowEqual_spread_map_of:
  assumes "shallowEqual a (spread a b)"
  shows "map_of (spread a b) = map_of a"
proof
  fix k
  obtain ks where ks: "keys (spread a b) = keys a @ ks"
    using keys_spread_prefix by blast
  from assms have len: "length (keys a) = length (keys (spread a b))"
    and all: "list_all (\<lambda>key. hasOwnProperty (spread a b) key \<and> getProp a key = getProp (spread a b) key) (keys a)"
    by (auto simp: shallowEqual_def split: if_splits)
  from len ks have same: "keys (spread a b) = keys a" by simp
  show "map_of (spread a b) k = map_of a k"
  proof (cases "k \<in> set (keys a)")
    case True
    then have "hasOwnProperty (spread a b) k" and p: "getProp a k = getProp (spread a b) k"
      using all by (auto simp: list_all_iff)
    moreover from True have "map_of a k \<noteq> None"
      by (simp add: keys_def map_of_eq_None_iff)
    ultimately show ?thesis
      by (auto simp: hasOwnProperty_def getProp_def split: option.splits)
  next
    case False
    then have "map_of a k = None"
      by (simp add: keys_def map_of_eq_None_iff)
    moreover from same have "set (map fst (spread a b)) = set (map fst a)"
      by (simp only: keys_def)
    with False have "map_of (spread a b) k = None"
      by (simp add: keys_def map_of_eq_None_iff)
    ultimately show ?thesis by simp
  qed
qed

lemma map_of_state_setState:
  "map_of (state (setState J (PObj p) w)) = map_of (spread (state w) p)"
  by (simp add: setState_def Let_def shallowEqual_spread_map_of split: option.splits)

lemma keys_state_setState:
  "set (keys (state w)) \<subseteq> set (keys (state (setState J (PObj p) w)))"
  by (simp add: setState_def Let_def keys_spread_subset split: option.splits)

lemma keys_state_setState_any:
  "set (keys (state w)) \<subseteq> set (keys (state (setState J p w)))"
  by (simp add: setState_def Let_def keys_spread_subset split: option.splits)

lemma shallowEqual_of_same:
  assumes "distinct (keys a)" and "distinct (keys b)" and "same_keys_and_values a b"
  shows "shallowEqual a b"
proof -
  from assms(3) have ks: "set (keys a) = set (keys b)"
    and vs: "list_all (\<lambda>k. getProp a k = getProp b k) (keys a)"
    by (simp_all add: same_keys_and_values_def)
  have "length (keys a) = card (set (keys a))"
    using assms(1) by (simp add: distinct_card)
  also have "\<dots> = length (keys b)"
    using assms(2) ks by (simp add: distinct_card)
  finally have len: "length (keys a) = length (keys b)" .
  have "hasOwnProperty b k" if "k \<in> set (keys a)" for k
  proof -
    from that ks have "k \<in> fst ` set b" by (simp add: keys_def)
    then show ?thesis by (simp add: hasOwnProperty_def map_of_eq_None_iff)
  qed
  with vs len show ?thesis
    by (simp add: shallowEqual_def list_all_iff)
qed

lemma state_setState:
  "state (setState J p w) =
     (if shallowEqual (state w) (spread (state w) (resolve p (state w))) then state w
      else spread (state w) (resolve p (state w)))"
  by (simp add: setState_def resolve_def Let_def split: option.splits)

lemma keys_spread_same:
  "set (keys b) \<subseteq> set (keys a) \<Longrightarrow> keys (spread a b) = keys a"
proof (induction b arbitrary: a)
  case Nil
  then show ?case by (simp add: spread_def)
next
  case (Cons x b)
  obtain k' v' where x: "x = (k', v')" by (cases x)
  from Cons.prems have k: "k' \<in> set (keys a)" and b: "set (keys b) \<subseteq> set (keys a)"
    by (simp_all add: x keys_def)
  from k have "keys (AList.update k' v' a) = keys a"
    by (simp add: keys_update)
  with b Cons.IH [of "AList.update k' v' a"] show ?case
    by (simp add: spread_def x)
qed

lemma obj_eqI:
  "map fst a = map fst b \<Longrightarrow> distinct (map fst a) \<Longrightarrow> map_of a = map_of b \<Longrightarrow> a = b"
proof (induction a arbitrary: b)
  case Nil
  then show ?case by simp
next
  case (Cons x a)
  then obtain y b' where b: "b = y # b'" by (cases b) auto
  obtain k v where x: "x = (k, v)" by (cases x)
  obtain k' v' where y: "y = (k', v')" by (cases y)
  from Cons.prems(1) have kk: "k' = k" and ks: "map fst a = map fst b'"
    by (simp_all add: b x y)
  from Cons.prems(3) have "map_of (x # a) k = map_of b k" by (rule fun_cong)
  then have vv: "v' = v" by (simp add: b x y kk)
  from Cons.prems(2) have nk: "k \<notin> fst ` set a" and d: "distinct (map fst a)"
    by (simp_all add: x)
  have "map_of a = map_of b'"
  proof
    fix j
    show "map_of a j = map_of b' j"
    proof (cases "j = k")
      case True
      from nk have "map_of a k = None" by (simp add: map_of_eq_None_iff)
      moreover from nk ks have "k \<notin> fst ` set b'" by (metis set_map)
      then have "map_of b' k = None" by (simp add: map_of_eq_None_iff)
      ultimately show ?thesis by (simp add: True)
    next
      case False
      from Cons.prems(3) have "map_of (x # a) j = map_of b j" by (rule fun_cong)
      with False show ?thesis by (simp add: b x y kk)
    qed
  qed
  with Cons.IH [OF ks d] have "a = b'" by simp
  then show ?case by (simp add: b x y kk vv)
qed

lemma spread_back:
  assumes "distinct (keys s)" and "set (keys p) \<subseteq> set (keys s)"
  shows "spread (spread s p) s = s"
proof (rule obj_eqI)
  have k1: "keys (spread s p) = keys s"
    using assms(2) by (rule keys_spread_same)
  then have k2: "keys (spread (spread s p) s) = keys s"
    by (simp add: keys_spread_same)
  from k2 show "map fst (spread (spread s p) s) = map fst s"
    by (simp add: keys_def)
  with assms(1) show "distinct (map fst (spread (spread s p) s))"
    by (simp add: keys_def)
  show "map_of (spread (spread s p) s) = map_of s"
  proof
    fix k
    have "map_of (spread s p) k = None" if "map_of s k = None"
    proof -
      from that have "k \<notin> set (keys s)" by (simp add: keys_def map_of_eq_None_iff)
      with k1 have "k \<notin> set (map fst (spread s p))" by (simp add: keys_def)
      then show ?thesis by (simp add: map_of_eq_None_iff)
    qed
    then show "map_of (spread (spread s p) s) k = map_of s k"
      using assms(1) by (simp add: map_of_spread_distinct keys_def split: option.splits)
  qed
qed

lemma shallowEqual_same_keys_eq:
  assumes "shallowEqual a b" and "keys a = keys b" and "distinct (keys a)"
  shows "a = b"
proof (rule obj_eqI)
  from assms(2) show "map fst a = map fst b" by (simp add: keys_def)
  from assms(3) show "distinct (map fst a)" by (simp add: keys_def)
  show "map_of a = map_of b"
  proof
    fix k
    show "map_of a k = map_of b k"
    proof (cases "k \<in> set (keys a)")
      case True
      with assms(1) have "hasOwnProperty b k" and "getProp a k = getProp b k"
        by (auto simp: shallowEqual_def list_all_iff split: if_splits)
      moreover from True have "map_of a k \<noteq> None"
        by (simp add: keys_def map_of_eq_None_iff)
      ultimately show ?thesis
        by (auto simp: hasOwnProperty_def getProp_def split: option.splits)
    next
      case False
      then have "map_of a k = None" by (simp add: keys_def map_of_eq_None_iff)
      moreover from False assms(2) have "k \<notin> set (keys b)"
        by simp
      then have "map_of b k = None"
        by (simp add: keys_def map_of_eq_None_iff)
      ultimately show ?thesis by simp
    qed
  qed
qed

text \<open>
  The revert of \<open>createOptimisticAction\<close> does restore the state read at the start when
  the optimistic update only wrote keys that the state already had.
\<close>

lemma createOptimisticAction_revert_existing_keys:
  assumes d: "distinct (keys (state w))"
    and inside: "set (keys (optimisticUpdate (state w))) \<subseteq> set (keys (state w))"
    and rej: "asyncFn (setState J (PObj (optimisticUpdate (state w))) w) = (Inl e, w2)"
    and untouched: "state w2 = state (setState J (PObj (optimisticUpdate (state w))) w)"
  shows "createOptimisticAction J optimisticUpdate asyncFn w
           = (Inl e, setState J (PObj (state w)) w2)
         \<and> state (setState J (PObj (state w)) w2) = state w"
proof -
  let ?s = "state w"
  let ?p = "optimisticUpdate ?s"
  have undo: "spread (spread ?s ?p) ?s = ?s"
    using d inside by (rule spread_back)
  have self: "spread ?s ?s = ?s"
    using spread_back [OF d, of "[]"] by (simp add: spread_def keys_def)
  have k1: "keys (spread ?s ?p) = keys ?s"
    using inside by (rule keys_spread_same)
  have "state (setState J (PObj ?s) w2) = ?s"
  proof (cases "shallowEqual ?s (spread ?s ?p)")
    case True
    then have "state w2 = ?s"
      by (simp add: untouched state_setState resolve_def)
    then show ?thesis
      by (simp add: state_setState resolve_def self)
  next
    case False
    then have s2: "state w2 = spread ?s ?p"
      by (simp add: untouched state_setState resolve_def)
    show ?thesis
    proof (cases "shallowEqual (spread ?s ?p) ?s")
      case True
      have "distinct (keys (spread ?s ?p))" using d by (rule distinct_spread)
      with True k1 have "spread ?s ?p = ?s"
        by (simp add: shallowEqual_same_keys_eq)
      then show ?thesis
        by (simp add: state_setState resolve_def s2 self)
    next
      case False
      then show ?thesis
        by (simp add: state_setState resolve_def s2 undo)
    qed
  qed
  with rej show ?thesis
    by (simp add: createOptimisticAction_def getState_def Let_def)
qed

section \<open>Claims about the store\<close>

text \<open>
  Claim C8. A \<open>setState\<close> call whose merged result has the same keys as the current
  state, each with an identical value, changes nothing: the state object, the calls made
  to listeners, local storage and the DevTools log are all as before.
\<close>

theorem setState_shallow_equal_noop:
  assumes "distinct (keys (state w))"
    and "same_keys_and_values (state w) (spread (state w) (resolve p (state w)))"
  shows "setState J p w = w \<and> state (setState J p w) = state w
    \<and> notified (setState J p w) = notified w
    \<and> localStorage (setState J p w) = localStorage w"
proof -
  have "distinct (keys (spread (state w) (resolve p (state w))))"
    using assms(1) by (rule distinct_spread)
  with assms have "shallowEqual (state w) (spread (state w) (resolve p (state w)))"
    by (simp add: shallowEqual_of_same)
  then have "setState J p w = w"
    by (simp add: setState_def resolve_def Let_def)
  then show ?thesis by simp
qed

theorem setState_shallow_equal_noop_witness:
  "distinct (keys (state sampleStore))
   \<and> same_keys_and_values (state sampleStore)
        (spread (state sampleStore) (resolve (PObj [(''count'', Num 0)]) (state sampleStore)))
   \<and> setState sampleJSON (PObj [(''count'', Num 0)]) sampleStore = sampleStore"
proof -
  have d: "distinct (keys (state sampleStore))"
    by (simp add: sampleStore_def keys_def)
  have e: "same_keys_and_values (state sampleStore)
        (spread (state sampleStore) (resolve (PObj [(''count'', Num 0)]) (state sampleStore)))"
    by (simp add: sampleStore_def same_keys_and_values_def spread_def resolve_def keys_def
        getProp_def)
  from setState_shallow_equal_noop [OF d e, of sampleJSON] d e show ?thesis by simp
qed

text \<open>
  Claim C6. Two object updates \<open>p1\<close> then \<open>p2\<close> are merged last-write-wins: a key of
  \<open>p2\<close> has its value in \<open>p2\<close>, a key of \<open>p1\<close> that is not in \<open>p2\<close> has its value in
  \<open>p1\<close>, every other key keeps its value in the starting state; and no update, whatever
  its argument, removes a key.
\<close>

theorem setState_last_write_wins:
  assumes "distinct (keys p1)" and "distinct (keys p2)"
  shows "map_of (state (setState J (PObj p2) (setState J (PObj p1) w))) k =
           (case map_of p2 k of
              Some v \<Rightarrow> Some v
            | None \<Rightarrow> (case map_of p1 k of Some v \<Rightarrow> Some v | None \<Rightarrow> map_of (state w) k))
         \<and> set (keys (state w)) \<subseteq> set (keys (state (setState J p w)))"
proof -
  from assms have d1: "distinct (map fst p1)" and d2: "distinct (map fst p2)"
    by (simp_all add: keys_def)
  have "map_of (state (setState J (PObj p2) (setState J (PObj p1) w))) k =
        map_of (spread (state (setState J (PObj p1) w)) p2) k"
    by (simp add: map_of_state_setState)
  also have "\<dots> = (case map_of p2 k of Some v \<Rightarrow> Some v
                      | None \<Rightarrow> map_of (state (setState J (PObj p1) w)) k)"
    using d2 by (rule map_of_spread_distinct)
  also have "map_of (state (setState J (PObj p1) w)) k =
        (case map_of p1 k of Some v \<Rightarrow> Some v | None \<Rightarrow> map_of (state w) k)"
    using d1 by (simp add: map_of_state_setState map_of_spread_distinct)
  finally show ?thesis
    using keys_state_setState_any [of w J p] by simp
qed

theorem setState_last_write_wins_witness:
  "distinct (keys [(''count'', Num 1), (''user'', Ref 5)])
   \<and> distinct (keys [(''count'', Num 2), (''theme'', Str ''dark'')])
   \<and> state (setState sampleJSON (PObj [(''count'', Num 2), (''theme'', Str ''dark'')])
        (setState sampleJSON (PObj [(''count'', Num 1), (''user'', Ref 5)]) sampleStore))
     = [(''count'', Num 2), (''user'', Ref 5), (''theme'', Str ''dark'')]
   \<and> map_of (state (setState sampleJSON (PObj [(''count'', Num 2), (''theme'', Str ''dark'')])
        (setState sampleJSON (PObj [(''count'', Num 1), (''user'', Ref 5)]) sampleStore)))
        ''user'' = Some (Ref 5)"
proof -
  have d1: "distinct (keys [(''count'', Num 1), (''user'', Ref 5)])"
    by (simp add: keys_def)
  have d2: "distinct (keys [(''count'', Num 2), (''theme'', Str ''dark'')])"
    by (simp add: keys_def)
  have s: "state (setState sampleJSON (PObj [(''count'', Num 2), (''theme'', Str ''dark'')])
        (setState sampleJSON (PObj [(''count'', Num 1), (''user'', Ref 5)]) sampleStore))
     = [(''count'', Num 2), (''user'', Ref 5), (''theme'', Str ''dark'')]"
    by (simp add: setState_def sampleStore_def sampleJSON_def spread_def shallowEqual_def
        keys_def hasOwnProperty_def getProp_def persisting_def persist_def setItem_def
        used_def Let_def)
  from setState_last_write_wins [OF d1 d2, of sampleJSON sampleStore "''user''" "PObj []"]
  have "map_of (state (setState sampleJSON (PObj [(''count'', Num 2), (''theme'', Str ''dark'')])
        (setState sampleJSON (PObj [(''count'', Num 1), (''user'', Ref 5)]) sampleStore)))
        ''user'' = Some (Ref 5)"
    by simp
  with d1 d2 s show ?thesis by simp
qed

text \<open>
  Claim C9 as stated fails on the resolving path: the action does not write \<open>nError\<close>
  again after the wrapped function resolves, so a value that the function itself stored
  there stays. Here the function sets \<open>loginError\<close> and resolves with 7; the action
  returns 7 with \<open>loginLoading\<close> false and \<open>loginError\<close> not null.
\<close>

theorem createAsyncAction_error_not_null_counterexample:
  "fst (createAsyncAction sampleJSON ''login'' staleError sampleStore) = Inr 7
   \<and> map_of (state (snd (createAsyncAction sampleJSON ''login'' staleError sampleStore)))
       ''loginLoading'' = Some (Bool False)
   \<and> map_of (state (snd (createAsyncAction sampleJSON ''login'' staleError sampleStore)))
       ''loginError'' = Some (Str ''stale'')"
proof -
  let ?w1 = "setState sampleJSON
      (PObj [(''login'' @ ''Loading'', Bool True), (''login'' @ ''Error'', Null)]) sampleStore"
  let ?w2 = "setState sampleJSON (PObj [(''loginError'', Str ''stale'')]) ?w1"
  have run: "createAsyncAction sampleJSON ''login'' staleError sampleStore
      = (Inr 7, setState sampleJSON (PObj [(''login'' @ ''Loading'', Bool False)]) ?w2)"
    by (simp only: createAsyncAction_def staleError_def Let_def prod.case sum.case)
  show ?thesis
    by (simp add: run map_of_state_setState map_of_spread)
qed

text \<open>
  Claim C9, amended. An action made by \<open>createAsyncAction\<close> under the name \<open>n\<close> first
  sets \<open>nLoading\<close> to true and \<open>nError\<close> to null and then runs the wrapped function on
  that store. If the function resolves, \<open>nLoading\<close> becomes false, \<open>nError\<close> is not
  written again and so is as the function left it (null when the function did not touch
  the state), and the result is returned; if it rejects, \<open>nLoading\<close> becomes false,
  \<open>nError\<close> is the thrown value and the same value is rethrown.
\<close>

theorem createAsyncAction_loading_error:
  "map_of (state (setState J (PObj [(n @ ''Loading'', Bool True), (n @ ''Error'', Null)]) w))
      (n @ ''Loading'') = Some (Bool True)
   \<and> map_of (state (setState J (PObj [(n @ ''Loading'', Bool True), (n @ ''Error'', Null)]) w))
      (n @ ''Error'') = Some Null
   \<and> (asyncFn (setState J (PObj [(n @ ''Loading'', Bool True), (n @ ''Error'', Null)]) w)
        = (Inr r, w2) \<longrightarrow>
      fst (createAsyncAction J n asyncFn w) = Inr r
      \<and> map_of (state (snd (createAsyncAction J n asyncFn w))) (n @ ''Loading'')
          = Some (Bool False)
      \<and> map_of (state (snd (createAsyncAction J n asyncFn w))) (n @ ''Error'')
          = map_of (state w2) (n @ ''Error'')
      \<and> (state w2 = state (setState J (PObj [(n @ ''Loading'', Bool True), (n @ ''Error'', Null)]) w)
          \<longrightarrow> map_of (state (snd (createAsyncAction J n asyncFn w))) (n @ ''Error'')
              = Some Null))
   \<and> (asyncFn (setState J (PObj [(n @ ''Loading'', Bool True), (n @ ''Error'', Null)]) w)
        = (Inl e, w2) \<longrightarrow>
      fst (createAsyncAction J n asyncFn w) = Inl e
      \<and> map_of (state (snd (createAsyncAction J n asyncFn w))) (n @ ''Loading'')
          = Some (Bool False)
      \<and> map_of (state (snd (createAsyncAction J n asyncFn w))) (n @ ''Error'') = Some e)"
proof -
  let ?w1 = "setState J (PObj [(n @ ''Loading'', Bool True), (n @ ''Error'', Null)]) w"
  have ne: "n @ ''Loading'' \<noteq> n @ ''Error''" by simp
  have a: "map_of (state ?w1) (n @ ''Loading'') = Some (Bool True)"
    by (simp add: map_of_state_setState map_of_spread)
  have b: "map_of (state ?w1) (n @ ''Error'') = Some Null"
    by (simp add: map_of_state_setState map_of_spread)
  have c: "fst (createAsyncAction J n asyncFn w) = Inr r
      \<and> map_of (state (snd (createAsyncAction J n asyncFn w))) (n @ ''Loading'')
          = Some (Bool False)
      \<and> map_of (state (snd (createAsyncAction J n asyncFn w))) (n @ ''Error'')
          = map_of (state w2) (n @ ''Error'')" if "asyncFn ?w1 = (Inr r, w2)"
    using that by (simp add: createAsyncAction_def Let_def map_of_state_setState map_of_spread)
  have d: "fst (createAsyncAction J n asyncFn w) = Inl e
      \<and> map_of (state (snd (createAsyncAction J n asyncFn w))) (n @ ''Loading'')
          = Some (Bool False)
      \<and> map_of (state (snd (createAsyncAction J n asyncFn w))) (n @ ''Error'') = Some e"
    if "asyncFn ?w1 = (Inl e, w2)"
    using that by (simp add: createAsyncAction_def Let_def map_of_state_setState map_of_spread)
  from a b c d show ?thesis by simp
qed

theorem createAsyncAction_loading_error_witness:
  "(rejecting (Str ''Invalid credentials'') :: (nat, nat) asyncFn)
      (setState sampleJSON (PObj [(''login'' @ ''Loading'', Bool True), (''login'' @ ''Error'', Null)])
         sampleStore)
     = (Inl (Str ''Invalid credentials''),
        setState sampleJSON (PObj [(''login'' @ ''Loading'', Bool True), (''login'' @ ''Error'', Null)])
         sampleStore)
   \<and> fst (createAsyncAction sampleJSON ''login''
        (rejecting (Str ''Invalid credentials'') :: (nat, nat) asyncFn) sampleStore)
        = Inl (Str ''Invalid credentials'')
   \<and> map_of (state (snd (createAsyncAction sampleJSON ''login''
        (rejecting (Str ''Invalid credentials'') :: (nat, nat) asyncFn) sampleStore)))
        (''login'' @ ''Error'') = Some (Str ''Invalid credentials'')
   \<and> (resolving 7 :: (nat, nat) asyncFn)
      (setState sampleJSON (PObj [(''login'' @ ''Loading'', Bool True), (''login'' @ ''Error'', Null)])
         sampleStore)
     = (Inr 7,
        setState sampleJSON (PObj [(''login'' @ ''Loading'', Bool True), (''login'' @ ''Error'', Null)])
         sampleStore)
   \<and> fst (createAsyncAction sampleJSON ''login'' (resolving 7 :: (nat, nat) asyncFn) sampleStore)
        = Inr 7
   \<and> map_of (state (snd (createAsyncAction sampleJSON ''login''
        (resolving 7 :: (nat, nat) asyncFn) sampleStore)))
        (''login'' @ ''Error'') = Some Null"
proof -
  let ?w1 = "setState sampleJSON
      (PObj [(''login'' @ ''Loading'', Bool True), (''login'' @ ''Error'', Null)]) sampleStore"
  let ?rej = "rejecting (Str ''Invalid credentials'') :: (nat, nat) asyncFn"
  let ?res = "resolving 7 :: (nat, nat) asyncFn"
  have r: "?rej ?w1 = (Inl (Str ''Invalid credentials''), ?w1)"
    by (simp add: rejecting_def)
  have s: "?res ?w1 = (Inr 7, ?w1)"
    by (simp add: resolving_def)
  from createAsyncAction_loading_error
    [of sampleJSON "''login''" sampleStore ?rej 0 ?w1 "Str ''Invalid credentials''"] r
  have t1: "fst (createAsyncAction sampleJSON ''login'' ?rej sampleStore)
        = Inl (Str ''Invalid credentials'')
     \<and> map_of (state (snd (createAsyncAction sampleJSON ''login'' ?rej sampleStore)))
        (''login'' @ ''Error'') = Some (Str ''Invalid credentials'')"
    by blast
  from createAsyncAction_loading_error
    [of sampleJSON "''login''" sampleStore ?res 7 ?w1 Null] s
  have t2: "fst (createAsyncAction sampleJSON ''login'' ?res sampleStore) = Inr 7
     \<and> map_of (state (snd (createAsyncAction sampleJSON ''login'' ?res sampleStore)))
        (''login'' @ ''Error'') = Some Null"
    by blast
  from r s t1 t2 show ?thesis by blast
qed

text \<open>
  Claim C1, evaluated where it fails. The optimistic update adds the key \<open>draft\<close>, which
  the state does not have; the async function rejects without touching the store. The
  revert is \<open>setState(currentState)\<close>, a merge, so the added key survives: the action
  rethrows the error, but the state is not the one read before the optimistic update.
\<close>

theorem createOptimisticAction_revert_keeps_added_key:
  "fst (createOptimisticAction sampleJSON (\<lambda>s. [(''draft'', Str ''x'')])
         (rejecting (Str ''offline'') :: (nat, nat) asyncFn) sampleStore)
     = Inl (Str ''offline'')
   \<and> state sampleStore = [(''count'', Num 0), (''user'', Null)]
   \<and> state (snd (createOptimisticAction sampleJSON (\<lambda>s. [(''draft'', Str ''x'')])
         (rejecting (Str ''offline'') :: (nat, nat) asyncFn) sampleStore))
     = [(''count'', Num 0), (''user'', Null), (''draft'', Str ''x'')]"
  by (simp add: createOptimisticAction_def rejecting_def getState_def setState_def
      sampleStore_def sampleJSON_def spread_def shallowEqual_def keys_def hasOwnProperty_def
      getProp_def persisting_def persist_def setItem_def used_def Let_def)

lemma persistKey_setState: "persistKey (setState J p w) = persistKey w"
  by (simp add: setState_def Let_def split: option.splits)

lemma localStorage_setState:
  "localStorage (setState J p w) =
     (if shallowEqual (state w) (spread (state w) (resolve p (state w))) then localStorage w
      else (case persisting (persistKey w) of
              None \<Rightarrow> localStorage w
            | Some k \<Rightarrow> persist J k (spread (state w) (resolve p (state w))) (localStorage w)))"
  by (simp add: setState_def resolve_def Let_def split: option.splits)

lemma getItem_setItem:
  "setItem ls k t = Inr ls' \<Longrightarrow> getItem ls' k = Inr (Some t)"
  by (auto simp: setItem_def getItem_def update_conv' split: if_splits)

text \<open>
  Claim C4 as stated fails where the write to local storage fails: the store is created
  with a persist key on a full local storage, \<open>setState\<close> changes the state, and local
  storage does not hold the serialisation of the new state.
\<close>

theorem setState_persist_counterexample:
  "persistKey (createStore sampleJSON [(''count'', Num 0)] (Some ''app'') False fullStorage False
      :: nat store) = Some ''app''
   \<and> state (setState sampleJSON (PObj [(''count'', Num 1)])
        (createStore sampleJSON [(''count'', Num 0)] (Some ''app'') False fullStorage False
          :: nat store))
      \<noteq> state (createStore sampleJSON [(''count'', Num 0)] (Some ''app'') False fullStorage False
          :: nat store)
   \<and> stringify sampleJSON (state (setState sampleJSON (PObj [(''count'', Num 1)])
        (createStore sampleJSON [(''count'', Num 0)] (Some ''app'') False fullStorage False
          :: nat store))) = Some ''count''
   \<and> getItem (localStorage (setState sampleJSON (PObj [(''count'', Num 1)])
        (createStore sampleJSON [(''count'', Num 0)] (Some ''app'') False fullStorage False
          :: nat store))) ''app'' = Inr None"
  by (simp add: createStore_def loadPersisted_def persisting_def getItem_def fullStorage_def
      setState_def sampleJSON_def spread_def shallowEqual_def keys_def hasOwnProperty_def
      getProp_def persist_def setItem_def used_def Let_def)

text \<open>
  Claim C4, amended. For a store created with a non-empty persist key \<open>k\<close>: the initial
  state is the given one merged with the parsed value stored under \<open>k\<close>, persisted
  fields overriding initial ones, and is the given state unchanged when nothing is stored
  or when reading or parsing fails. After a \<open>setState\<close> that changes the state, local
  storage holds under \<open>k\<close> the serialisation of the new full state provided that
  serialising and writing both succeed; when either fails, local storage is as before.
\<close>

theorem createStore_persistence:
  assumes "persisting pk = Some k"
  shows "state (createStore J initialState pk dev ls ext :: 'l store) =
           (case getItem ls k of
              Inl _ \<Rightarrow> initialState
            | Inr None \<Rightarrow> initialState
            | Inr (Some t) \<Rightarrow>
                if t = [] then initialState
                else (case parse J t of None \<Rightarrow> initialState | Some v \<Rightarrow> spread initialState v))
         \<and> (distinct (keys v) \<longrightarrow>
              map_of (spread initialState v) key =
                (case map_of v key of Some x \<Rightarrow> Some x | None \<Rightarrow> map_of initialState key))
         \<and> (persistKey (w :: 'l store) = pk \<and> state (setState J p w) \<noteq> state w \<longrightarrow>
              (case stringify J (state (setState J p w)) of
                 None \<Rightarrow> localStorage (setState J p w) = localStorage w
               | Some t \<Rightarrow>
                   (case setItem (localStorage w) k t of
                      Inl _ \<Rightarrow> localStorage (setState J p w) = localStorage w
                    | Inr ls' \<Rightarrow> localStorage (setState J p w) = ls'
                        \<and> getItem (localStorage (setState J p w)) k = Inr (Some t))))"
proof -
  have a: "state (createStore J initialState pk dev ls ext :: 'l store) =
           (case getItem ls k of
              Inl _ \<Rightarrow> initialState
            | Inr None \<Rightarrow> initialState
            | Inr (Some t) \<Rightarrow>
                if t = [] then initialState
                else (case parse J t of None \<Rightarrow> initialState | Some v \<Rightarrow> spread initialState v))"
    using assms by (simp add: createStore_def loadPersisted_def)
  have b: "map_of (spread initialState v) key =
                (case map_of v key of Some x \<Rightarrow> Some x | None \<Rightarrow> map_of initialState key)"
    if "distinct (keys v)"
    using that by (simp add: map_of_spread_distinct keys_def)
  have c: "(case stringify J (state (setState J p w)) of
                 None \<Rightarrow> localStorage (setState J p w) = localStorage w
               | Some t \<Rightarrow>
                   (case setItem (localStorage w) k t of
                      Inl _ \<Rightarrow> localStorage (setState J p w) = localStorage w
                    | Inr ls' \<Rightarrow> localStorage (setState J p w) = ls'
                        \<and> getItem (localStorage (setState J p w)) k = Inr (Some t)))"
    if pk: "persistKey w = pk" and ch: "state (setState J p w) \<noteq> state w"
  proof -
    let ?new = "spread (state w) (resolve p (state w))"
    from ch have ne: "\<not> shallowEqual (state w) ?new"
      by (auto simp: state_setState)
    then have st: "state (setState J p w) = ?new"
      by (simp add: state_setState)
    from ne pk assms have ls: "localStorage (setState J p w) = persist J k ?new (localStorage w)"
      by (simp add: localStorage_setState)
    show ?thesis
      by (auto simp: st ls persist_def getItem_setItem split: option.splits sum.splits)
  qed
  from a b c show ?thesis by blast
qed

theorem createStore_persistence_witness:
  "persisting (Some ''app'') = Some ''app''
   \<and> state (createStore sampleJSON [(''count'', Num 0), (''theme'', Str ''light'')]
        (Some ''app'') False savedStorage False :: nat store)
     = [(''count'', Num 0), (''theme'', Str ''dark'')]
   \<and> distinct (keys [(''theme'', Str ''dark'')])
   \<and> persistKey sampleStore = Some ''app''
   \<and> state (setState sampleJSON (PObj [(''count'', Num 1)]) sampleStore) \<noteq> state sampleStore
   \<and> getItem (localStorage (setState sampleJSON (PObj [(''count'', Num 1)]) sampleStore)) ''app''
     = Inr (Some ''countuser'')"
proof -
  have h: "persisting (Some ''app'') = Some ''app''"
    by (simp add: persisting_def)
  have d: "distinct (keys [(''theme'', Str ''dark'')])"
    by (simp add: keys_def)
  have pk: "persistKey sampleStore = Some ''app''"
    by (simp add: sampleStore_def)
  have ch: "state (setState sampleJSON (PObj [(''count'', Num 1)]) sampleStore) \<noteq> state sampleStore"
    by (simp add: state_setState resolve_def sampleStore_def spread_def shallowEqual_def keys_def
        hasOwnProperty_def getProp_def)
  have st: "state (setState sampleJSON (PObj [(''count'', Num 1)]) sampleStore)
      = [(''count'', Num 1), (''user'', Null)]"
    by (simp add: state_setState resolve_def sampleStore_def spread_def shallowEqual_def keys_def
        hasOwnProperty_def getProp_def)
  have si: "setItem (localStorage sampleStore) ''app'' ''countuser''
      = Inr \<lparr>items = [(''app'', ''countuser'')], denied = False, quota = 100\<rparr>"
    by (simp add: sampleStore_def setItem_def used_def)
  note t = createStore_persistence [OF h, of sampleJSON
      "[(''count'', Num 0), (''theme'', Str ''light'')]" False savedStorage False
      "[(''theme'', Str ''dark'')]" "''theme''" sampleStore "PObj [(''count'', Num 1)]"]
  have gi: "getItem savedStorage ''app'' = Inr (Some ''theme'')"
    by (simp add: getItem_def savedStorage_def)
  have pj: "parse sampleJSON ''theme'' = Some [(''theme'', Str ''dark'')]"
    by (simp add: sampleJSON_def)
  have sj: "stringify sampleJSON [(''count'', Num 1), (''user'', Null)] = Some ''countuser''"
    by (simp add: sampleJSON_def)
  from t [THEN conjunct1]
  have "state (createStore sampleJSON [(''count'', Num 0), (''theme'', Str ''light'')]
        (Some ''app'') False savedStorage False :: nat store)
     = [(''count'', Num 0), (''theme'', Str ''dark'')]"
    by (simp add: gi pj spread_def)
  moreover from t [THEN conjunct2, THEN conjunct2] pk ch
  have "getItem (localStorage (setState sampleJSON (PObj [(''count'', Num 1)]) sampleStore)) ''app''
     = Inr (Some ''countuser'')"
    by (simp add: st sj si getItem_def)
  ultimately show ?thesis using h d pk ch by simp
qed

section \<open>Claims about lazy loading\<close>

subsection \<open>Rounding to a double\<close>

lemma ilog2_lower: "0 < x \<Longrightarrow> 2 powi (ilog2 x) \<le> x"
proof (cases "1 \<le> x")
  case True
  then have pos: "0 < \<lfloor>x\<rfloor>" by simp
  from bitlen_bounds [OF pos] have b: "2 ^ nat (bitlen \<lfloor>x\<rfloor> - 1) \<le> \<lfloor>x\<rfloor>" by simp
  from pos have "1 \<le> bitlen \<lfloor>x\<rfloor>" by (auto simp: bitlen_alt_def)
  then have "(2::rat) powi (bitlen \<lfloor>x\<rfloor> - 1) = 2 ^ nat (bitlen \<lfloor>x\<rfloor> - 1)"
    by (simp add: power_int_def)
  also have "\<dots> = of_int (2 ^ nat (bitlen \<lfloor>x\<rfloor> - 1))" by simp
  also from b have "\<dots> \<le> of_int \<lfloor>x\<rfloor>" by (simp only: of_int_le_iff)
  also have "\<dots> \<le> x" by simp
  finally show ?thesis using True by (simp add: ilog2_def)
next
  case False
  assume x: "0 < x"
  let ?N = "\<lceil>1 / x\<rceil> - 1"
  from False x have "1 < 1 / x" by (simp add: field_simps)
  then have "1 < \<lceil>1 / x\<rceil>" by (simp add: less_ceiling_iff)
  then have pos: "0 < ?N" by simp
  from bitlen_bounds [OF pos] have "?N < 2 ^ nat (bitlen ?N)" by simp
  then have "\<lceil>1 / x\<rceil> \<le> 2 ^ nat (bitlen ?N)" by simp
  then have "1 / x \<le> of_int (2 ^ nat (bitlen ?N))" by (simp only: ceiling_le_iff)
  then have "1 / x \<le> 2 ^ nat (bitlen ?N)" by simp
  with x have "1 / 2 ^ nat (bitlen ?N) \<le> x" by (simp add: field_simps)
  moreover have "(2::rat) powi (- bitlen ?N) = 1 / 2 ^ nat (bitlen ?N)"
    using bitlen_nonneg [of ?N] by (simp add: power_int_minus power_int_def field_simps)
  ultimately show ?thesis using False by (simp add: ilog2_def)
qed

lemma ilog2_upper: "0 < x \<Longrightarrow> x < 2 powi (ilog2 x + 1)"
proof (cases "1 \<le> x")
  case True
  then have pos: "0 < \<lfloor>x\<rfloor>" by simp
  from bitlen_bounds [OF pos] have "\<lfloor>x\<rfloor> < 2 ^ nat (bitlen \<lfloor>x\<rfloor>)" by simp
  then have "\<lfloor>x\<rfloor> + 1 \<le> 2 ^ nat (bitlen \<lfloor>x\<rfloor>)" by simp
  then have "of_int (\<lfloor>x\<rfloor> + 1) \<le> (of_int (2 ^ nat (bitlen \<lfloor>x\<rfloor>)) :: rat)"
    by (simp only: of_int_le_iff)
  moreover have "x < of_int (\<lfloor>x\<rfloor> + 1)" by linarith
  ultimately have "x < 2 ^ nat (bitlen \<lfloor>x\<rfloor>)" by simp
  moreover have "(2::rat) powi (bitlen \<lfloor>x\<rfloor>) = 2 ^ nat (bitlen \<lfloor>x\<rfloor>)"
    using bitlen_nonneg [of "\<lfloor>x\<rfloor>"] by (simp add: power_int_def)
  ultimately show ?thesis using True by (simp add: ilog2_def)
next
  case False
  assume x: "0 < x"
  let ?N = "\<lceil>1 / x\<rceil> - 1"
  from False x have "1 < 1 / x" by (simp add: field_simps)
  then have "1 < \<lceil>1 / x\<rceil>" by (simp add: less_ceiling_iff)
  then have pos: "0 < ?N" by simp
  then have b1: "1 \<le> bitlen ?N" by (auto simp: bitlen_alt_def)
  from bitlen_bounds [OF pos] have "2 ^ nat (bitlen ?N - 1) \<le> ?N" by simp
  then have "2 ^ nat (bitlen ?N - 1) < \<lceil>1 / x\<rceil>" by simp
  then have "of_int (2 ^ nat (bitlen ?N - 1)) < 1 / x" by (simp only: less_ceiling_iff)
  then have "2 ^ nat (bitlen ?N - 1) < 1 / x" by simp
  with x have "x < 1 / 2 ^ nat (bitlen ?N - 1)" by (simp add: field_simps)
  moreover have "(2::rat) powi (- bitlen ?N + 1) = 1 / 2 ^ nat (bitlen ?N - 1)"
  proof -
    have "(2::rat) powi (- bitlen ?N + 1) = 2 powi (- (bitlen ?N - 1))" by simp
    also have "\<dots> = inverse (2 powi (bitlen ?N - 1))" by (rule power_int_minus)
    also have "(2::rat) powi (bitlen ?N - 1) = 2 ^ nat (bitlen ?N - 1)"
      using b1 by (simp add: power_int_def)
    finally show ?thesis by (simp add: field_simps)
  qed
  ultimately show ?thesis using False by (simp add: ilog2_def)
qed

lemma roundHalfEven_of_int [simp]: "roundHalfEven (of_int n) = n"
  by (simp add: roundHalfEven_def)

lemma binary64_zero [simp]: "binary64 0 = Finite 0"
  by (simp add: binary64_def)

text \<open>A value with at most 53 significant bits above the smallest subnormal is a double.\<close>

lemma binary64_exact:
  assumes x: "x = of_int m * 2 powi k"
    and m: "\<bar>m\<bar> < 2 ^ 53"
    and k: "- 1074 \<le> k"
    and big: "\<bar>x\<bar> < 2 powi 1024"
  shows "binary64 x = Finite x"
proof (cases "x = 0")
  case True
  then show ?thesis by simp
next
  case False
  define e where "e = max (ilog2 \<bar>x\<bar>) (- 1022) - 52"
  from False have pos: "0 < \<bar>x\<bar>" by simp
  have ax: "\<bar>x\<bar> = of_int \<bar>m\<bar> * 2 powi k"
    by (simp add: x abs_mult)
  have "2 powi (ilog2 \<bar>x\<bar>) \<le> \<bar>x\<bar>" using pos by (rule ilog2_lower)
  also have "\<bar>x\<bar> < 2 ^ 53 * 2 powi k"
  proof -
    from m have "(of_int \<bar>m\<bar> :: rat) < of_int (2 ^ 53)" by (simp only: of_int_less_iff)
    then have "(of_int \<bar>m\<bar> :: rat) < 2 ^ 53" by simp
    then have "of_int \<bar>m\<bar> * 2 powi k < 2 ^ 53 * (2::rat) powi k"
      by (intro mult_strict_right_mono) simp_all
    then show ?thesis by (simp only: ax)
  qed
  also have "2 ^ 53 * (2::rat) powi k = 2 powi (53 + k)"
    by (simp add: power_int_add)
  finally have "(2::rat) powi (ilog2 \<bar>x\<bar>) < 2 powi (53 + k)" .
  then have "ilog2 \<bar>x\<bar> < 53 + k"
    by (metis not_less one_less_numeral_iff power_int_increasing less_imp_le semiring_norm(76))
  with k have ek: "e \<le> k" by (simp add: e_def)
  have q: "\<bar>x\<bar> / 2 powi e = of_int (\<bar>m\<bar> * 2 ^ nat (k - e))"
  proof -
    have "\<bar>x\<bar> / 2 powi e = of_int \<bar>m\<bar> * ((2::rat) powi k / 2 powi e)"
      by (simp only: ax times_divide_eq_right)
    also have "(2::rat) powi k / 2 powi e = 2 powi (k - e)"
      by (simp add: power_int_diff)
    also have "\<dots> = 2 ^ nat (k - e)"
      using ek by (simp add: power_int_def)
    finally show ?thesis by simp
  qed
  have y: "of_int (roundHalfEven (\<bar>x\<bar> / 2 powi e)) * 2 powi e = \<bar>x\<bar>"
  proof -
    have "of_int (roundHalfEven (\<bar>x\<bar> / 2 powi e)) * (2::rat) powi e = \<bar>x\<bar> / 2 powi e * 2 powi e"
      by (simp only: q roundHalfEven_of_int)
    then show ?thesis by simp
  qed
  have "sgn x * \<bar>x\<bar> = x" by (rule sgn_mult_abs)
  with False y big show ?thesis
    by (simp add: binary64_def Let_def e_def [symmetric] not_le)
qed

lemma binary64_of_int: "\<bar>n\<bar> < 2 ^ 53 \<Longrightarrow> binary64 (of_int n) = Finite (of_int n)"
proof -
  assume n: "\<bar>n\<bar> < 2 ^ 53"
  then have "(of_int \<bar>n\<bar> :: rat) < of_int (2 ^ 53)" by (simp only: of_int_less_iff)
  then have "\<bar>of_int n :: rat\<bar> < 2 ^ 53" by simp
  also have "(2::rat) ^ 53 < 2 powi 1024" by simp
  finally have "\<bar>of_int n :: rat\<bar> < 2 powi 1024" .
  with n show ?thesis
    by (intro binary64_exact [where m = n and k = 0]) simp_all
qed

lemma binary64_pow2:
  assumes "- 1074 \<le> k" and "k \<le> 1023"
  shows "binary64 (2 powi k) = Finite (2 powi k)"
proof -
  from assms(2) have "(2::rat) powi k < 2 powi 1024"
    by (intro power_int_strict_increasing) simp_all
  with assms(1) show ?thesis
    by (intro binary64_exact [where m = 1 and k = k]) simp_all
qed

lemma binary64_pow2_times_1000:
  assumes "- 1074 \<le> k" and "k \<le> 3"
  shows "binary64 (2 powi k * 1000) = Finite (2 powi k * 1000)"
proof -
  from assms(2) have "(2::rat) powi k \<le> 2 powi 3"
    by (intro power_int_increasing) simp_all
  then have "(2::rat) powi k * 1000 \<le> 8000" by simp
  also have "(8000::rat) < 2 powi 1024" by simp
  finally have "\<bar>(2::rat) powi k * 1000\<bar> < 2 powi 1024" by simp
  with assms(1) show ?thesis
    by (intro binary64_exact [where m = 1000 and k = k]) simp_all
qed

text \<open>Below half of the smallest subnormal, and at exactly half (a tie), a power of two rounds to 0.\<close>

lemma binary64_pow2_underflow:
  assumes "k \<le> - 1075"
  shows "binary64 (2 powi k) = Finite 0"
proof -
  define E :: int where "E = - 1074"
  define x :: rat where "x = 2 powi k"
  have pos: "0 < x" by (simp add: x_def)
  have "(2::rat) powi (ilog2 x) \<le> 2 powi k" using pos ilog2_lower [of x] by (simp add: x_def)
  then have "ilog2 x \<le> k"
    by (metis not_less one_less_numeral_iff power_int_strict_increasing semiring_norm(76))
  with assms have e: "max (ilog2 x) (- 1022) - 52 = E"
    by (simp add: E_def)
  define q where "q = x / 2 powi E"
  have "q = 2 powi (k - E)"
    unfolding x_def q_def by (rule power_int_diff [symmetric]) simp
  also have "(2::rat) powi (k - E) \<le> 2 powi (- 1)"
    using assms by (intro power_int_increasing) (simp_all add: E_def)
  finally have half: "q \<le> 1 / 2" by (simp add: power_int_minus)
  have nonneg: "0 \<le> q" using pos by (simp add: q_def)
  have fl: "\<lfloor>q\<rfloor> = 0"
    using half nonneg by (intro floor_unique) simp_all
  have "roundHalfEven q = 0"
    using half by (auto simp: roundHalfEven_def Let_def fl)
  then have "roundHalfEven (x / 2 powi E) = 0" by (simp only: q_def)
  then have "binary64 x = Finite 0"
    using pos by (simp add: binary64_def Let_def e)
  then show ?thesis by (simp only: x_def)
qed

subsection \<open>The exact recursion\<close>

lemma upt_shift: "0 < a \<Longrightarrow> [Suc 0..<Suc a] = Suc 0 # map Suc [Suc 0..<a]"
  by (simp add: map_Suc_upt upt_conv_Cons)

lemma retryImport_exact_calls:
  "retryImport_exact f n (c, ws) = (res, c', ws') \<Longrightarrow> c < c' \<and> c' \<le> c + nat n + 1"
proof (induction f n "(c, ws)" arbitrary: c ws rule: retryImport_exact.induct)
  case (1 importFn retryCount calls waits)
  show ?case
  proof (cases "importFn calls")
    case (Inr v)
    with "1.prems" show ?thesis by simp
  next
    case (Inl error)
    show ?thesis
    proof (cases "retryCount > 0")
      case True
      with Inl "1.prems" have
        "retryImport_exact importFn (retryCount - 1) (Suc calls, waits @ [2 powi (3 - retryCount) * 1000]) = (res, c', ws')"
        by (simp add: Let_def)
      from "1.hyps" [OF Inl True refl this] True show ?thesis
        by (simp add: nat_diff_distrib)
    next
      case False
      with Inl "1.prems" show ?thesis by simp
    qed
  qed
qed

lemma retryImport_exact_waits:
  "retryImport_exact f n (c, ws) = (res, c', ws') \<Longrightarrow>
   ws' = ws @ map (backoff n) [1..<c' - c]"
proof (induction f n "(c, ws)" arbitrary: c ws rule: retryImport_exact.induct)
  case (1 importFn retryCount calls waits)
  show ?case
  proof (cases "importFn calls")
    case (Inr v)
    with "1.prems" show ?thesis by auto
  next
    case (Inl error)
    show ?thesis
    proof (cases "retryCount > 0")
      case True
      with Inl "1.prems" have r:
        "retryImport_exact importFn (retryCount - 1) (Suc calls, waits @ [2 powi (3 - retryCount) * 1000]) = (res, c', ws')"
        by (simp add: Let_def)
      from retryImport_exact_calls [OF r] have lt: "Suc calls < c'" by simp
      define m where "m = c' - Suc calls"
      from lt have a: "c' - calls = Suc m" and pos: "0 < m"
        by (simp_all add: m_def)
      have bk: "backoff retryCount (Suc x) = backoff (retryCount - 1) x" for x
      proof -
        have "3 - retryCount + int (Suc x) - 1 = 3 - (retryCount - 1) + int x - 1" by simp
        then show ?thesis by (simp only: backoff_def)
      qed
      have hd: "backoff retryCount (Suc 0) = 2 powi (3 - retryCount) * 1000"
        by (simp add: backoff_def)
      have "map (backoff retryCount) [1..<Suc m]
          = backoff retryCount (Suc 0) # map (backoff retryCount) (map Suc [Suc 0..<m])"
        using upt_shift [OF pos] by simp
      also have "map (backoff retryCount) (map Suc [Suc 0..<m])
          = map (backoff (retryCount - 1)) [Suc 0..<m]"
        by (simp add: bk)
      finally have sh: "map (backoff retryCount) [1..<Suc m]
          = (2 powi (3 - retryCount) * 1000) # map (backoff (retryCount - 1)) [1..<m]"
        by (simp only: hd One_nat_def)
      from "1.hyps" [OF Inl True refl r]
      have "ws' = (waits @ [2 powi (3 - retryCount) * 1000])
                @ map (backoff (retryCount - 1)) [1..<m]"
        by (simp only: m_def)
      then show ?thesis
        by (simp only: a sh append_Cons append_Nil append_assoc)
    next
      case False
      with Inl "1.prems" show ?thesis by auto
    qed
  qed
qed


lemma retryImport_exact_result:
  "retryImport_exact f n (c, ws) = (res, c', ws') \<Longrightarrow>
   res = f (c' - 1) \<and> (\<forall>i. c \<le> i \<and> i < c' - 1 \<longrightarrow> isl (f i))
   \<and> (isl res \<longrightarrow> c' = Suc (c + nat n))"
proof (induction f n "(c, ws)" arbitrary: c ws rule: retryImport_exact.induct)
  case (1 importFn retryCount calls waits)
  show ?case
  proof (cases "importFn calls")
    case (Inr v)
    with "1.prems" have p: "res = Inr v" and c': "c' = Suc calls" by simp_all
    have "res = importFn (c' - 1)"
      by (simp only: p c' Inr diff_Suc_1)
    moreover have "\<forall>i. calls \<le> i \<and> i < c' - 1 \<longrightarrow> isl (importFn i)"
      by (clarsimp simp: c')
    moreover have "\<not> isl res"
      by (simp add: p)
    ultimately show ?thesis by blast
  next
    case (Inl error)
    show ?thesis
    proof (cases "retryCount > 0")
      case True
      with Inl "1.prems" have r:
        "retryImport_exact importFn (retryCount - 1) (Suc calls, waits @ [2 powi (3 - retryCount) * 1000]) = (res, c', ws')"
        by (simp add: Let_def)
      note ih = "1.hyps" [OF Inl True refl r]
      have i1: "res = importFn (c' - 1)"
        by (rule ih [THEN conjunct1])
      have i2: "isl (importFn i)" if "Suc calls \<le> i" "i < c' - 1" for i
        using ih [THEN conjunct2, THEN conjunct1] that by blast
      have i3: "c' = Suc (Suc calls + nat (retryCount - 1))" if "isl res"
        using ih [THEN conjunct2, THEN conjunct2] that by blast
      have "isl (importFn i)" if "calls \<le> i" "i < c' - 1" for i
      proof (cases "i = calls")
        case True
        then show ?thesis by (simp add: Inl)
      next
        case False
        with that have "Suc calls \<le> i" by simp
        then show ?thesis using that(2) by (rule i2)
      qed
      moreover from True have "Suc (Suc calls + nat (retryCount - 1)) = Suc (calls + nat retryCount)"
        by (simp add: nat_diff_distrib)
      with i3 have "c' = Suc (calls + nat retryCount)" if "isl res"
        using that by simp
      ultimately show ?thesis using i1 by blast
    next
      case False
      with Inl "1.prems" have p: "res = Inl error" and c': "c' = Suc calls" by simp_all
      have "res = importFn (c' - 1)"
        by (simp only: p c' Inl diff_Suc_1)
      moreover have "\<forall>i. calls \<le> i \<and> i < c' - 1 \<longrightarrow> isl (importFn i)"
        by (clarsimp simp: c')
      moreover from False have "c' = Suc (calls + nat retryCount)"
        by (simp add: c')
      ultimately show ?thesis by blast
    qed
  qed
qed

subsection \<open>The code computes the exact recursion\<close>

lemma pow2_succ: "(2::rat) powi (e + 1) = 2 * 2 powi e"
  by (simp add: power_int_add)

lemma js_sub_ints:
  assumes "\<bar>a - b\<bar> < 2 ^ 53"
  shows "js_sub (Finite (of_int a)) (Finite (of_int b)) = Finite (of_int (a - b))"
proof -
  have "js_sub (Finite (of_int a)) (Finite (of_int b)) = binary64 (of_int (a - b))"
    by simp
  also have "\<dots> = Finite (of_int (a - b))"
    using assms by (rule binary64_of_int)
  finally show ?thesis .
qed

lemma Math_pow2_int:
  "Math_pow2 powFrac (Finite (of_int z)) = binary64 (2 powi z)"
  by simp

text \<open>One retry of the code, for an integer count between 1 and 1077, is one retry of the exact recursion.\<close>

lemma retry_step:
  assumes "0 < n" and "n \<le> 1077"
  shows "js_gt (Finite (of_int n)) (Finite 0)"
    and "js_mul (Math_pow2 powFrac (js_sub (Finite 3) (Finite (of_int n)))) (Finite 1000)
           = Finite (2 powi (3 - n) * 1000)"
    and "js_sub (Finite (of_int n)) (Finite 1) = Finite (of_int (n - 1))"
proof -
  show "js_gt (Finite (of_int n)) (Finite 0)" using assms(1) by simp
  have "js_sub (Finite 3) (Finite (of_int n)) = Finite (of_int (3 - n))"
    using js_sub_ints [of 3 n] assms by simp
  moreover have "binary64 (2 powi (3 - n)) = Finite (2 powi (3 - n))"
    using assms by (intro binary64_pow2) simp_all
  moreover have "binary64 (2 powi (3 - n) * 1000) = Finite (2 powi (3 - n) * 1000)"
    using assms by (intro binary64_pow2_times_1000) simp_all
  ultimately show "js_mul (Math_pow2 powFrac (js_sub (Finite 3) (Finite (of_int n)))) (Finite 1000)
           = Finite (2 powi (3 - n) * 1000)"
    by (simp only: Math_pow2_int js_mul.simps)
  show "js_sub (Finite (of_int n)) (Finite 1) = Finite (of_int (n - 1))"
    using js_sub_ints [of n 1] assms by simp
qed

lemma retryImport_refines_exact:
  "0 \<le> n \<Longrightarrow> n \<le> 1077 \<Longrightarrow>
   retryImport powFrac f (Finite (of_int n)) (c, map Finite ws) =
     Some (case retryImport_exact f n (c, ws) of (res, c', ws') \<Rightarrow> (res, c', map Finite ws'))"
proof (induction f n "(c, ws)" arbitrary: c ws rule: retryImport_exact.induct)
  case (1 importFn retryCount calls waits)
  show ?case
  proof (cases "importFn calls")
    case (Inr v)
    then show ?thesis
      by (subst retryImport.simps) simp
  next
    case (Inl error)
    show ?thesis
    proof (cases "retryCount > 0")
      case True
      note st = retry_step [OF True "1.prems"(2)]
      from True "1.prems" have b: "0 \<le> retryCount - 1" "retryCount - 1 \<le> 1077" by simp_all
      have "retryImport powFrac importFn (Finite (of_int retryCount)) (calls, map Finite waits)
          = retryImport powFrac importFn (Finite (of_int (retryCount - 1)))
              (Suc calls, map Finite (waits @ [2 powi (3 - retryCount) * 1000]))"
        by (subst retryImport.simps)
           (simp only: fst_conv snd_conv Inl sum.case st if_True Let_def map_append list.map)
      also have "\<dots> = Some (case retryImport_exact importFn (retryCount - 1)
              (Suc calls, waits @ [2 powi (3 - retryCount) * 1000]) of
            (res, c', ws') \<Rightarrow> (res, c', map Finite ws'))"
        using "1.hyps" [OF Inl True refl b] .
      also have "retryImport_exact importFn (retryCount - 1)
              (Suc calls, waits @ [2 powi (3 - retryCount) * 1000])
          = retryImport_exact importFn retryCount (calls, waits)"
        using True by (simp add: Inl Let_def)
      finally show ?thesis .
    next
      case False
      with "1.prems" have z: "retryCount = 0" by simp
      show ?thesis
        by (subst retryImport.simps) (simp add: Inl z)
    qed
  qed
qed


lemma binary64_minus_half: "binary64 (- (1 / 2)) = Finite (- (1 / 2))"
proof -
  have "\<bar>- (1 / 2) :: rat\<bar> < 2 powi 1024" by simp
  then show ?thesis
    by (intro binary64_exact [where m = "- 1" and k = "- 1"]) (simp_all add: power_int_minus)
qed

text \<open>
  Claim C2 as stated fails: it speaks of every retry count of at least 0, and the
  count is a double. With the count 1078 and an import that loads on its second call,
  the one delay passed to \<open>setTimeout\<close> is 0, where the stated formula gives
  \<open>2 powi (- 1075) * 1000\<close>, which is positive: \<open>Math.pow(2, - 1075)\<close> is below the
  smallest double and is 0. With the count one half and an import that always fails,
  two attempts are made, more than the count plus one.
\<close>

theorem retryImport_double_counterexample:
  "retryImport noPowFrac secondTime underflowCount (0, []) = Some (Inr 42, 2, [Finite 0])
   \<and> 0 < backoff 1078 1
   \<and> map_option (fst \<circ> snd) (retryImport noPowFrac alwaysFails halfCount (0, [])) = Some 2"
proof -
  have s3: "js_sub (Finite 3) (Finite 1078) = Finite (of_int (- 1075))"
    using js_sub_ints [of 3 1078] by simp
  have pw: "Math_pow2 noPowFrac (Finite (of_int (- 1075))) = Finite 0"
    by (simp only: Math_pow2_int) (rule binary64_pow2_underflow, simp)
  have ml: "js_mul (Finite 0) (Finite 1000) = Finite 0"
    by simp
  have s1: "js_sub (Finite 1078) (Finite 1) = Finite 1077"
    using js_sub_ints [of 1078 1] by simp
  have gt: "js_gt (Finite 1078) (Finite 0)" by simp
  have second: "retryImport noPowFrac secondTime (Finite 1077) (Suc 0, [Finite 0])
      = Some (Inr 42, 2, [Finite 0])"
    by (subst retryImport.simps) (simp add: secondTime_def)
  have u: "retryImport noPowFrac secondTime underflowCount (0, []) = Some (Inr 42, 2, [Finite 0])"
    unfolding underflowCount_def
    by (subst retryImport.simps)
       (simp only: fst_conv snd_conv secondTime_def zero_neq_one if_False sum.case gt if_True
          s3 pw ml s1 Let_def append_Nil second)
  have h1: "js_sub (Finite (1 / 2)) (Finite 1) = Finite (- (1 / 2))"
    by (simp add: binary64_minus_half)
  have hg: "js_gt (Finite (1 / 2)) (Finite 0)" by simp
  have stop: "retryImport noPowFrac alwaysFails (Finite (- (1 / 2))) (Suc 0, ws)
      = Some (Inl ''Loading chunk failed'', 2, ws)" for ws
    by (subst retryImport.simps) (simp add: alwaysFails_def)
  have "map_option (fst \<circ> snd) (retryImport noPowFrac alwaysFails halfCount (0, [])) = Some 2"
    unfolding halfCount_def
    by (subst retryImport.simps)
       (simp only: fst_conv snd_conv alwaysFails_def sum.case hg if_True h1 Let_def stop
          option.map comp_apply)
  moreover have "0 < backoff 1078 1"
    unfolding backoff_def by (intro mult_pos_pos zero_less_power_int) simp_all
  ultimately show ?thesis using u by simp
qed

text \<open>
  Claim C2, amended. For every integer retry count from 0 to 1077, every import
  function and every behaviour of \<open>Math.pow\<close> at exponents that are not integers, the
  call of \<open>retryImport\<close> returns, after at least one and at most \<open>retryCount + 1\<close>
  attempts; it returns the value of the first attempt that succeeds; when every
  attempt fails it rethrows the error of the last one; the delay before the \<open>k\<close>-th
  retry is exactly \<open>2 powi (3 - retryCount + k - 1) * 1000\<close> milliseconds, so each delay
  is twice the one before; with the default count 3 and every attempt failing the
  delays are 1000, 2000 and 4000.
\<close>

theorem retryImport_backoff:
  fixes retryCount :: int
  assumes "0 \<le> retryCount" and "retryCount \<le> 1077"
  shows "\<exists>res c' delays.
    retryImport powFrac importFn (Finite (of_int retryCount)) (c, [])
      = Some (res, c', map Finite delays)
    \<and> c < c' \<and> int (c' - c) \<le> retryCount + 1
    \<and> (\<forall>j v. j \<le> nat retryCount \<and> importFn (c + j) = Inr v
          \<and> (\<forall>i<j. isl (importFn (c + i))) \<longrightarrow> res = Inr v \<and> c' = c + j + 1)
    \<and> ((\<forall>j\<le>nat retryCount. isl (importFn (c + j))) \<longrightarrow>
          res = importFn (c + nat retryCount) \<and> c' = c + nat retryCount + 1)
    \<and> delays = map (\<lambda>k. 2 powi (3 - retryCount + int k - 1) * 1000) [1..<c' - c]
    \<and> (\<forall>i. Suc i < length delays \<longrightarrow> delays ! Suc i = 2 * delays ! i)
    \<and> (retryCount = 3 \<and> c' = c + 4 \<longrightarrow> delays = [1000, 2000, 4000])"
proof -
  obtain res c' delays where run: "retryImport_exact importFn retryCount (c, []) = (res, c', delays)"
    by (cases "retryImport_exact importFn retryCount (c, [])") auto
  have code: "retryImport powFrac importFn (Finite (of_int retryCount)) (c, [])
      = Some (res, c', map Finite delays)"
    using retryImport_refines_exact [OF assms, of powFrac importFn c "[]"]
    by (simp only: run list.map prod.case)
  from retryImport_exact_calls [OF run] have lo: "c < c'" and hi: "c' \<le> c + nat retryCount + 1"
    by simp_all
  from hi assms(1) have bound: "int (c' - c) \<le> retryCount + 1"
    by linarith
  note r = retryImport_exact_result [OF run]
  have r1: "res = importFn (c' - 1)"
    by (rule r [THEN conjunct1])
  have r2: "isl (importFn i)" if "c \<le> i" "i < c' - 1" for i
    using r [THEN conjunct2, THEN conjunct1] that by blast
  have r3: "c' = Suc (c + nat retryCount)" if "isl res"
    using r [THEN conjunct2, THEN conjunct2] that by blast
  have first: "res = Inr v \<and> c' = c + j + 1"
    if j: "j \<le> nat retryCount" and ok: "importFn (c + j) = Inr v"
      and before: "\<forall>i<j. isl (importFn (c + i))" for j v
  proof -
    have "\<not> c + j < c' - 1"
    proof
      assume "c + j < c' - 1"
      then have "isl (importFn (c + j))" by (simp add: r2)
      with ok show False by simp
    qed
    moreover have "\<not> c' - 1 < c + j"
    proof
      assume lt: "c' - 1 < c + j"
      with lo have "c' - 1 - c < j" by linarith
      with before have "isl (importFn (c + (c' - 1 - c)))" by blast
      moreover from lo have "c + (c' - 1 - c) = c' - 1" by linarith
      ultimately have "isl res" by (simp add: r1)
      then have "c' = Suc (c + nat retryCount)" by (rule r3)
      with lt j show False by linarith
    qed
    ultimately have eq: "c' - 1 = c + j" by linarith
    with lo have "c' = c + j + 1" by linarith
    moreover from eq ok have "res = Inr v" by (simp add: r1)
    ultimately show ?thesis by simp
  qed
  have allfail: "res = importFn (c + nat retryCount) \<and> c' = c + nat retryCount + 1"
    if fails: "\<forall>j\<le>nat retryCount. isl (importFn (c + j))"
  proof -
    from lo hi have "c' - 1 - c \<le> nat retryCount" by linarith
    with fails have "isl (importFn (c + (c' - 1 - c)))" by blast
    moreover from lo have "c + (c' - 1 - c) = c' - 1" by linarith
    ultimately have "isl res" by (simp add: r1)
    then have c': "c' = Suc (c + nat retryCount)" by (rule r3)
    then have "c' - 1 = c + nat retryCount" by simp
    with c' show ?thesis by (simp add: r1)
  qed
  have w: "delays = map (\<lambda>k. 2 powi (3 - retryCount + int k - 1) * 1000) [1..<c' - c]"
    using retryImport_exact_waits [OF run] by (simp add: backoff_def [abs_def])
  have dbl: "delays ! Suc i = 2 * delays ! i" if "Suc i < length delays" for i
  proof -
    from that have len: "Suc i < c' - c - 1" by (simp add: w)
    have "3 - retryCount + int (1 + Suc i) - 1 = (3 - retryCount + int (1 + i) - 1) + 1"
      by simp
    then have "(2::rat) powi (3 - retryCount + int (1 + Suc i) - 1)
        = 2 * 2 powi (3 - retryCount + int (1 + i) - 1)"
      by (simp only: pow2_succ)
    with len show ?thesis by (simp add: w)
  qed
  have dflt: "delays = [1000, 2000, 4000]" if "retryCount = 3" "c' = c + 4"
  proof -
    from that(2) have "[1..<c' - c] = [1, 2, 3]"
      by (simp add: upt_rec)
    with that(1) show ?thesis by (simp add: w)
  qed
  have "retryImport powFrac importFn (Finite (of_int retryCount)) (c, [])
      = Some (res, c', map Finite delays)
    \<and> c < c' \<and> int (c' - c) \<le> retryCount + 1
    \<and> (\<forall>j v. j \<le> nat retryCount \<and> importFn (c + j) = Inr v
          \<and> (\<forall>i<j. isl (importFn (c + i))) \<longrightarrow> res = Inr v \<and> c' = c + j + 1)
    \<and> ((\<forall>j\<le>nat retryCount. isl (importFn (c + j))) \<longrightarrow>
          res = importFn (c + nat retryCount) \<and> c' = c + nat retryCount + 1)
    \<and> delays = map (\<lambda>k. 2 powi (3 - retryCount + int k - 1) * 1000) [1..<c' - c]
    \<and> (\<forall>i. Suc i < length delays \<longrightarrow> delays ! Suc i = 2 * delays ! i)
    \<and> (retryCount = 3 \<and> c' = c + 4 \<longrightarrow> delays = [1000, 2000, 4000])"
    using code lo bound first allfail w dbl dflt by blast
  then show ?thesis by (intro exI)
qed

theorem retryImport_backoff_witness:
  "(0::int) \<le> 3 \<and> (3::int) \<le> 1077
   \<and> retryImport noPowFrac alwaysFails (Finite 3) (0, [])
       = Some (Inl ''Loading chunk failed'', 4, [Finite 1000, Finite 2000, Finite 4000])
   \<and> retryImport noPowFrac thirdTime (Finite 3) (0, [])
       = Some (Inr 42, 3, [Finite 1000, Finite 2000])"
proof -
  have h: "(0::int) \<le> 3" "(3::int) \<le> 1077" by simp_all
  from retryImport_backoff [OF h, of noPowFrac alwaysFails 0]
  obtain res c' delays where a:
    "retryImport noPowFrac alwaysFails (Finite (of_int 3)) (0, []) = Some (res, c', map Finite delays)"
    "(\<forall>j\<le>nat 3. isl (alwaysFails (0 + j))) \<longrightarrow>
       res = alwaysFails (0 + nat 3) \<and> c' = 0 + nat 3 + 1"
    "(3::int) = 3 \<and> c' = 0 + 4 \<longrightarrow> delays = [1000, 2000, 4000]"
    by (elim exE conjE) (rule that, assumption+)
  from a(2) have r: "res = Inl ''Loading chunk failed''" and c: "c' = 4"
    by (simp_all add: alwaysFails_def)
  from a(3) c have d: "delays = [1000, 2000, 4000]" by simp
  from a(1) r c d have e1: "retryImport noPowFrac alwaysFails (Finite 3) (0, [])
       = Some (Inl ''Loading chunk failed'', 4, [Finite 1000, Finite 2000, Finite 4000])"
    by simp
  from retryImport_backoff [OF h, of noPowFrac thirdTime 0]
  obtain res2 c2 delays2 where b:
    "retryImport noPowFrac thirdTime (Finite (of_int 3)) (0, []) = Some (res2, c2, map Finite delays2)"
    "\<forall>j v. j \<le> nat 3 \<and> thirdTime (0 + j) = Inr v
          \<and> (\<forall>i<j. isl (thirdTime (0 + i))) \<longrightarrow> res2 = Inr v \<and> c2 = 0 + j + 1"
    "delays2 = map (\<lambda>k. 2 powi (3 - 3 + int k - 1) * 1000) [1..<c2 - 0]"
    by (elim exE conjE) (rule that, assumption+)
  from b(2) [rule_format, of 2 42] have r2: "res2 = Inr 42" and c2: "c2 = 3"
    by (simp_all add: thirdTime_def)
  from b(3) c2 have d2: "delays2 = [1000, 2000]"
    by (simp add: upt_rec)
  from b(1) r2 c2 d2 have e2: "retryImport noPowFrac thirdTime (Finite 3) (0, [])
       = Some (Inr 42, 3, [Finite 1000, Finite 2000])"
    by simp
  from h e1 e2 show ?thesis by blast
qed

section \<open>Claims about the error boundary\<close>

lemma scheduleRetry_effect:
  "scheduled (scheduleRetry b) = scheduled b @ [2 ^ retryCount b * 1000]
   \<and> retryTimeoutId (scheduleRetry b) = Some (nextTimerId b)
   \<and> (nextTimerId b, 2 ^ retryCount b * 1000) \<in> set (timers (scheduleRetry b))
   \<and> retryCount (scheduleRetry b) = retryCount b"
  by (simp add: scheduleRetry_def setTimeout_def clearTimeout_def Let_def split: option.splits)

text \<open>
  Claim C3 as stated fails: chunk loading is not the only place that retries with
  exponential backoff. A component-level \<open>AdvancedErrorBoundary\<close> whose child keeps
  throwing schedules its own automatic retries, after 1000, 2000 and 4000 milliseconds.
\<close>

theorem errorBoundary_backoff_counterexample:
  "level widgetProps = Some Component
   \<and> map_option scheduled (crashLoop 3 mount) = Some [1000, 2000, 4000]
   \<and> map_option retryCount (crashLoop 3 mount) = Some 2"
  by (simp add: widgetProps_def mount_def componentDidCatch_def getDerivedStateFromError_def
      boundaryContext_def reportOk_def maxRetries_def scheduleRetry_def setTimeout_def
      clearTimeout_def timerFires_def retry_def Let_def numeral_3_eq_3)

text \<open>
  Claim C3, amended. Besides the retry of chunk loading, the error boundary retries with
  exponential backoff: when the reporting service and \<open>onError\<close> return,
  \<open>componentDidCatch\<close> schedules an automatic retry exactly when the level is
  \<open>component\<close> and fewer than 3 retries were made, with a delay of
  \<open>2 ^ retryCount * 1000\<close> milliseconds; when that timer fires the error is cleared and
  the retry count grows by one. In every other case it sets no timer.
\<close>

theorem componentDidCatch_schedules_backoff:
  fixes reportError :: "'e \<Rightarrow> reportContext \<Rightarrow> bool"
  assumes "reportError err (boundaryContext p b)"
    and "case onError p of None \<Rightarrow> True | Some f \<Rightarrow> f err info"
  shows "\<exists>b'. componentDidCatch reportError p err info b = Some b'
    \<and> (if level p = Some Component \<and> retryCount b < 3
        then scheduled b' = scheduled b @ [2 ^ retryCount b * 1000]
          \<and> retryTimeoutId b' = Some (nextTimerId b)
          \<and> (nextTimerId b, 2 ^ retryCount b * 1000) \<in> set (timers b')
          \<and> retryCount (timerFires (nextTimerId b) b') = retryCount b + 1
          \<and> \<not> hasError (timerFires (nextTimerId b) b')
        else scheduled b' = scheduled b \<and> timers b' = timers b
          \<and> retryTimeoutId b' = retryTimeoutId b)"
proof (cases "level p = Some Component \<and> retryCount b < 3")
  case True
  let ?b1 = "b\<lparr>error := Some err, errorInfo := Some info\<rparr>"
  from True assms have c: "componentDidCatch reportError p err info b = Some (scheduleRetry ?b1)"
    by (simp add: componentDidCatch_def maxRetries_def Let_def split: option.splits)
  note e = scheduleRetry_effect [of ?b1]
  from e have pend: "nextTimerId b \<in> fst ` set (timers (scheduleRetry ?b1))"
    by (auto simp: image_iff intro: bexI [where x = "(nextTimerId b, 2 ^ retryCount b * 1000)"])
  from e have rc: "retryCount (scheduleRetry ?b1) = retryCount b" by simp
  from pend rc have "retryCount (timerFires (nextTimerId b) (scheduleRetry ?b1)) = retryCount b + 1"
    and "\<not> hasError (timerFires (nextTimerId b) (scheduleRetry ?b1))"
    by (simp_all add: timerFires_def retry_def clearTimeout_def)
  with True c e show ?thesis by simp
next
  case False
  with assms show ?thesis
    by (auto simp: componentDidCatch_def maxRetries_def Let_def split: option.splits)
qed

theorem componentDidCatch_schedules_backoff_witness:
  "reportOk ''boom'' (boundaryContext widgetProps (retry (mount :: (string, string) boundary)))
   \<and> (case onError widgetProps of None \<Rightarrow> True | Some f \<Rightarrow> f ''boom'' ''at Widget'')
   \<and> (\<exists>b'. componentDidCatch reportOk widgetProps ''boom'' ''at Widget'' (retry mount) = Some b'
        \<and> scheduled b' = [2000])"
proof -
  have r: "reportOk ''boom'' (boundaryContext widgetProps (retry (mount :: (string, string) boundary)))"
    by (simp add: reportOk_def)
  have f: "case onError widgetProps of None \<Rightarrow> True | Some f \<Rightarrow> f ''boom'' ''at Widget''"
    by (simp add: widgetProps_def)
  have lv: "level widgetProps = Some Component"
    by (simp add: widgetProps_def)
  have rc: "retryCount (retry (mount :: (string, string) boundary)) = 1"
    and sc: "scheduled (retry (mount :: (string, string) boundary)) = []"
    by (simp_all add: retry_def mount_def)
  from componentDidCatch_schedules_backoff [of reportOk "''boom''" widgetProps "retry mount" "''at Widget''", OF r f]
  have "\<exists>b'. componentDidCatch reportOk widgetProps ''boom'' ''at Widget'' (retry mount) = Some b'
        \<and> scheduled b' = [2000]"
    by (auto simp: lv rc sc)
  with r f show ?thesis by blast
qed

text \<open>
  Claim C7 as stated fails in two places. A captured value that is falsy, here the empty
  string thrown by a child, sets \<open>hasError\<close> and a non-null \<open>error\<close>, yet the boundary
  renders its children again and no fallback. And the boundary can let an exception out
  while it handles a captured error: when \<open>onError\<close> throws, the exception leaves
  \<open>componentDidCatch\<close>.
\<close>

theorem render_falsy_error_counterexample:
  "hasError (getDerivedStateFromError emptyString (mount :: (jsval, string) boundary))
   \<and> error (getDerivedStateFromError emptyString (mount :: (jsval, string) boundary))
       = Some emptyString
   \<and> render True panelProps (getDerivedStateFromError emptyString mount) = Children ''<Panel/>''
   \<and> componentDidCatch reportReturns panelProps (Str ''boom'') ''at Panel''
        (getDerivedStateFromError (Str ''boom'') mount) = None"
  by (simp add: getDerivedStateFromError_def mount_def render_def truthy_def panelProps_def
      componentDidCatch_def reportReturns_def emptyString_def Let_def)

text \<open>
  Claim C7, amended. When \<open>hasError\<close> is false or the stored error is null or another
  falsy value, the boundary renders its children unchanged. When \<open>hasError\<close> is true and
  the stored error is truthy, it renders the caller's fallback applied to that error when
  one was given, and otherwise the default fallback of its level: the page panel, the
  feature panel, or the component panel (also when no level was given); so capturing a
  truthy error always leads to a fallback. The boundary does not rethrow the captured
  error itself: \<open>componentDidCatch\<close> returns exactly when the reporting service and
  \<open>onError\<close> return, and an exception thrown by either of them leaves it.
\<close>

theorem render_children_or_fallback:
  fixes reportError :: "jsval \<Rightarrow> reportContext \<Rightarrow> bool"
  shows
  "((\<not> hasError b \<or> error b = None \<or> (\<exists>v. error b = Some v \<and> \<not> truthy v)) \<longrightarrow>
      render development p b = Children (children p))
   \<and> (hasError b \<and> error b = Some e \<and> truthy e \<longrightarrow>
        render development p b =
          (case fallback p of
             Some f \<Rightarrow> CustomFallback (f e)
           | None \<Rightarrow>
               (case level p of
                  Some Page \<Rightarrow> PageError (if development then Some e else None)
                | Some Feature \<Rightarrow>
                    FeatureUnavailable
                      (if 0 < retryCount b \<and> retryCount b < 3 then Some (retryCount b) else None)
                      (retryCount b = 0)
                | Some Component \<Rightarrow>
                    ComponentFailed (0 < retryCount b \<and> retryCount b < 3) (retryCount b = 0)
                | None \<Rightarrow>
                    ComponentFailed (0 < retryCount b \<and> retryCount b < 3) (retryCount b = 0))))
   \<and> (truthy e \<longrightarrow>
        render development p (getDerivedStateFromError e b) \<noteq> Children (children p)
        \<and> render development p (getDerivedStateFromError e b) =
            (case fallback p of
               Some f \<Rightarrow> CustomFallback (f e)
             | None \<Rightarrow> renderDefaultFallback development p (getDerivedStateFromError e b)))
   \<and> (componentDidCatch reportError p e info b \<noteq> None \<longleftrightarrow>
        reportError e (boundaryContext p b)
        \<and> (case onError p of None \<Rightarrow> True | Some f \<Rightarrow> f e info))"
proof -
  have a: "render development p b = Children (children p)"
    if "\<not> hasError b \<or> error b = None \<or> (\<exists>v. error b = Some v \<and> \<not> truthy v)"
    using that by (auto simp: render_def split: option.splits)
  have b: "render development p b =
          (case fallback p of
             Some f \<Rightarrow> CustomFallback (f e)
           | None \<Rightarrow>
               (case level p of
                  Some Page \<Rightarrow> PageError (if development then Some e else None)
                | Some Feature \<Rightarrow>
                    FeatureUnavailable
                      (if 0 < retryCount b \<and> retryCount b < 3 then Some (retryCount b) else None)
                      (retryCount b = 0)
                | Some Component \<Rightarrow>
                    ComponentFailed (0 < retryCount b \<and> retryCount b < 3) (retryCount b = 0)
                | None \<Rightarrow>
                    ComponentFailed (0 < retryCount b \<and> retryCount b < 3) (retryCount b = 0)))"
    if "hasError b \<and> error b = Some e \<and> truthy e"
    using that
    by (auto simp: render_def renderDefaultFallback_def maxRetries_def Let_def
        split: option.splits level.splits)
  have c: "render development p (getDerivedStateFromError e b) =
        (case fallback p of
           Some f \<Rightarrow> CustomFallback (f e)
         | None \<Rightarrow> renderDefaultFallback development p (getDerivedStateFromError e b))"
    if "truthy e"
    using that by (simp add: render_def getDerivedStateFromError_def split: option.splits)
  have d: "render development p (getDerivedStateFromError e b) \<noteq> Children (children p)"
    if "truthy e"
    using that
    by (simp add: c renderDefaultFallback_def Let_def split: option.splits level.splits)
  have f: "componentDidCatch reportError p e info b \<noteq> None \<longleftrightarrow>
        reportError e (boundaryContext p b)
        \<and> (case onError p of None \<Rightarrow> True | Some f \<Rightarrow> f e info)"
    by (auto simp: componentDidCatch_def Let_def split: option.splits)
  from a b c d f show ?thesis by blast
qed

theorem render_children_or_fallback_witness:
  "\<not> hasError (mount :: (jsval, string) boundary)
   \<and> render True panelProps (mount :: (jsval, string) boundary) = Children ''<Panel/>''
   \<and> hasError (getDerivedStateFromError (Str ''boom'') (mount :: (jsval, string) boundary))
   \<and> error (getDerivedStateFromError (Str ''boom'') (mount :: (jsval, string) boundary))
       = Some (Str ''boom'')
   \<and> truthy (Str ''boom'')
   \<and> render True panelProps (getDerivedStateFromError (Str ''boom'') (mount :: (jsval, string) boundary))
       = FeatureUnavailable None True
   \<and> componentDidCatch reportReturns (panelProps\<lparr>onError := None\<rparr>) (Str ''boom'') ''at Panel''
       (getDerivedStateFromError (Str ''boom'') mount) \<noteq> None"
proof -
  let ?m = "mount :: (jsval, string) boundary"
  let ?c = "getDerivedStateFromError (Str ''boom'') ?m"
  have h1: "\<not> hasError ?m" by (simp add: mount_def)
  have h2: "hasError ?c \<and> error ?c = Some (Str ''boom'') \<and> truthy (Str ''boom'')"
    by (simp add: getDerivedStateFromError_def truthy_def)
  have rc: "retryCount ?c = 0"
    by (simp add: getDerivedStateFromError_def mount_def)
  have ok: "reportReturns (Str ''boom'') (boundaryContext (panelProps\<lparr>onError := None\<rparr>) ?c)
      \<and> (case onError (panelProps\<lparr>onError := None\<rparr>) of None \<Rightarrow> True
          | Some f \<Rightarrow> f (Str ''boom'') ''at Panel'')"
    by (simp add: reportReturns_def)
  from render_children_or_fallback [of ?m True panelProps "Str ''boom''" reportReturns "''at Panel''"] h1
  have r1: "render True panelProps ?m = Children ''<Panel/>''"
    by (simp add: panelProps_def)
  from render_children_or_fallback [of ?c True panelProps "Str ''boom''" reportReturns "''at Panel''"] h2
  have r2: "render True panelProps ?c = FeatureUnavailable None True"
    by (simp add: panelProps_def rc)
  from render_children_or_fallback
    [of ?c True "panelProps\<lparr>onError := None\<rparr>" "Str ''boom''" reportReturns "''at Panel''"] ok
  have r3: "componentDidCatch reportReturns (panelProps\<lparr>onError := None\<rparr>) (Str ''boom'')
      ''at Panel'' ?c \<noteq> None"
    by blast
  from h1 h2 r1 r2 r3 show ?thesis by simp
qed

section \<open>Claims about the error reporting service\<close>

lemma length_slice_last: "length (slice_last n xs) \<le> n"
  by (simp add: slice_last_def)

lemma slice_last_short: "length xs \<le> n \<Longrightarrow> slice_last n xs = xs"
  by (simp add: slice_last_def)

lemma slice_last_append: "slice_last n (slice_last n xs @ ys) = slice_last n (xs @ ys)"
proof -
  let ?k = "length xs - n"
  have a: "drop ?k xs @ ys = drop ?k (xs @ ys)"
    by simp
  have b: "length (drop ?k (xs @ ys)) - n + ?k = length (xs @ ys) - n"
    by (simp only: length_drop length_append)
  have "slice_last n (slice_last n xs @ ys) = slice_last n (drop ?k (xs @ ys))"
    by (simp only: slice_last_def a)
  also have "\<dots> = drop (length (drop ?k (xs @ ys)) - n + ?k) (xs @ ys)"
    by (simp only: slice_last_def drop_drop)
  also have "\<dots> = slice_last n (xs @ ys)"
    by (simp only: b slice_last_def)
  finally show ?thesis .
qed

lemma slice_last_slice_last:
  assumes "m \<le> n"
  shows "slice_last m (slice_last n xs) = slice_last m xs"
proof -
  let ?k = "length xs - n"
  have b: "length (drop ?k xs) - m + ?k = length xs - m"
    using assms by (simp only: length_drop)
  have "slice_last m (slice_last n xs) = drop (length (drop ?k xs) - m + ?k) xs"
    by (simp only: slice_last_def drop_drop)
  also have "\<dots> = slice_last m xs"
    by (simp only: b slice_last_def)
  finally show ?thesis .
qed

lemma errors_storeError:
  "errors (storeError S r svc) = slice_last maxErrors (errors svc @ [r])"
  by (simp add: storeError_def Let_def slice_last_short split: option.splits sum.splits)

lemma sessionId_storeError: "sessionId (storeError S r svc) = sessionId svc"
  by (simp add: storeError_def Let_def split: option.splits sum.splits)

lemma sessionId_reportError:
  "sessionId (snd (reportError btoa S br err ctx svc)) = sessionId svc"
  by (simp add: reportError_def sessionId_storeError split: option.splits)

lemma errors_reportError:
  "errors (snd (reportError btoa S br err ctx svc)) =
     (case buildReport btoa br (sessionId svc) err ctx of
        None \<Rightarrow> errors svc
      | Some r \<Rightarrow> slice_last maxErrors (errors svc @ [r]))"
  by (simp add: reportError_def errors_storeError split: option.splits)

lemma errors_reportAll:
  "length (errors svc) \<le> maxErrors \<Longrightarrow>
   errors (reportAll btoa S br calls svc) =
     slice_last maxErrors (errors svc @ reportsBuilt btoa br (sessionId svc) calls)"
proof (induction calls arbitrary: svc)
  case Nil
  then show ?case by (simp add: reportsBuilt_def map_filter_simps slice_last_short)
next
  case (Cons c calls)
  obtain err ctx where c: "c = (err, ctx)" by (cases c)
  let ?svc = "snd (reportError btoa S br err ctx svc)"
  have len: "length (errors ?svc) \<le> maxErrors"
    using Cons.prems by (simp add: errors_reportError length_slice_last split: option.splits)
  have sid: "sessionId ?svc = sessionId svc" by (rule sessionId_reportError)
  show ?case
  proof (cases "buildReport btoa br (sessionId svc) err ctx")
    case None
    then have "errors ?svc = errors svc" by (simp add: errors_reportError)
    with Cons.IH [OF len] None show ?thesis
      by (simp add: c sid reportsBuilt_def map_filter_simps)
  next
    case (Some r)
    then have "errors ?svc = slice_last maxErrors (errors svc @ [r])"
      by (simp add: errors_reportError)
    with Cons.IH [OF len] Some show ?thesis
      by (simp add: c sid reportsBuilt_def map_filter_simps slice_last_append)
  qed
qed

lemma serviceStorage_storeError:
  "serviceStorage (storeError S r svc) =
     (case S (slice_last 10 (errors (storeError S r svc))) of
        None \<Rightarrow> serviceStorage svc
      | Some txt \<Rightarrow>
          (case setItem (serviceStorage svc) ''error_reports'' txt of
             Inl _ \<Rightarrow> serviceStorage svc
           | Inr ls \<Rightarrow> ls))"
  by (simp add: storeError_def Let_def split: option.splits sum.splits)

text \<open>
  Claim C10 as stated fails for the persisted copy. The write to local storage is guarded
  and a failure is ignored, so after a failed write the copy is the one of an earlier call.
  Eleven errors are reported; the first ten writes fit the quota and the eleventh does not:
  the list in memory holds all eleven, the ten most recent are \<open>b\<close> to \<open>overflow\<close>, and
  local storage still holds \<open>a\<close> to \<open>j\<close>.
\<close>

theorem storeError_stale_copy_counterexample:
  "map reportName
      (errors (reportAll sampleBtoa sampleStringifyReports sampleBrowser elevenErrors tightService))
     = [''a'', ''b'', ''c'', ''d'', ''e'', ''f'', ''g'', ''h'', ''i'', ''j'', ''overflow'']
   \<and> getItem (serviceStorage
        (reportAll sampleBtoa sampleStringifyReports sampleBrowser elevenErrors tightService))
        ''error_reports'' = Inr (Some ''a;b;c;d;e;f;g;h;i;j;'')
   \<and> sampleStringifyReports (slice_last 10
        (errors (reportAll sampleBtoa sampleStringifyReports sampleBrowser elevenErrors tightService)))
     = Some ''b;c;d;e;f;g;h;i;j;overflow;''"
  by code_simp

text \<open>
  Claim C10, amended. Starting from a new service, after any run of \<open>reportError\<close>
  calls the in-memory list has at most 100 entries and is the last 100 of the reports built
  so far, in the order they arrived. Each call that builds a report \<open>r\<close> leaves the last
  100 of the old list followed by \<open>r\<close>, and writes the serialisation of the last 10
  entries of that list to local storage under \<open>error_reports\<close> provided that serialising
  and writing both succeed; when either fails, the failure is ignored, the in-memory list
  is updated all the same, and local storage stays as it was.
\<close>

theorem reportError_bounded_history:
  "length (errors (reportAll btoa S br calls (newService sid online ls))) \<le> 100
   \<and> errors (reportAll btoa S br calls (newService sid online ls))
       = slice_last 100 (reportsBuilt btoa br sid calls)
   \<and> (buildReport btoa br (sessionId svc) err ctx = Some r \<longrightarrow>
        errors (snd (reportError btoa S br err ctx svc)) = slice_last 100 (errors svc @ [r])
        \<and> length (errors (snd (reportError btoa S br err ctx svc))) \<le> 100
        \<and> slice_last 10 (errors (snd (reportError btoa S br err ctx svc)))
            = slice_last 10 (errors svc @ [r])
        \<and> length (slice_last 10 (errors (snd (reportError btoa S br err ctx svc)))) \<le> 10
        \<and> (case S (slice_last 10 (errors svc @ [r])) of
              None \<Rightarrow> serviceStorage (snd (reportError btoa S br err ctx svc)) = serviceStorage svc
            | Some txt \<Rightarrow>
                (case setItem (serviceStorage svc) ''error_reports'' txt of
                   Inl _ \<Rightarrow>
                     serviceStorage (snd (reportError btoa S br err ctx svc)) = serviceStorage svc
                 | Inr ls' \<Rightarrow>
                     getItem (serviceStorage (snd (reportError btoa S br err ctx svc)))
                       ''error_reports'' = Inr (Some txt))))"
proof -
  let ?new = "newService sid online ls"
  have e0: "errors ?new = []" and s0: "sessionId ?new = sid"
    by (simp_all add: newService_def)
  have all: "errors (reportAll btoa S br calls ?new) = slice_last 100 (reportsBuilt btoa br sid calls)"
    using errors_reportAll [of ?new btoa S br calls] by (simp add: e0 s0 maxErrors_def)
  then have len: "length (errors (reportAll btoa S br calls ?new)) \<le> 100"
    by (simp add: length_slice_last)
  have step: "errors (snd (reportError btoa S br err ctx svc)) = slice_last 100 (errors svc @ [r])
        \<and> length (errors (snd (reportError btoa S br err ctx svc))) \<le> 100
        \<and> slice_last 10 (errors (snd (reportError btoa S br err ctx svc)))
            = slice_last 10 (errors svc @ [r])
        \<and> length (slice_last 10 (errors (snd (reportError btoa S br err ctx svc)))) \<le> 10
        \<and> (case S (slice_last 10 (errors svc @ [r])) of
              None \<Rightarrow> serviceStorage (snd (reportError btoa S br err ctx svc)) = serviceStorage svc
            | Some txt \<Rightarrow>
                (case setItem (serviceStorage svc) ''error_reports'' txt of
                   Inl _ \<Rightarrow>
                     serviceStorage (snd (reportError btoa S br err ctx svc)) = serviceStorage svc
                 | Inr ls' \<Rightarrow>
                     getItem (serviceStorage (snd (reportError btoa S br err ctx svc)))
                       ''error_reports'' = Inr (Some txt)))"
    if built: "buildReport btoa br (sessionId svc) err ctx = Some r"
  proof -
    let ?svc = "snd (reportError btoa S br err ctx svc)"
    from built have re: "?svc = storeError S r svc"
      by (simp add: reportError_def)
    have e: "errors ?svc = slice_last 100 (errors svc @ [r])"
      by (simp add: re errors_storeError maxErrors_def)
    have t: "slice_last 10 (errors ?svc) = slice_last 10 (errors svc @ [r])"
      by (simp add: e slice_last_slice_last)
    have st: "(case S (slice_last 10 (errors svc @ [r])) of
              None \<Rightarrow> serviceStorage ?svc = serviceStorage svc
            | Some txt \<Rightarrow>
                (case setItem (serviceStorage svc) ''error_reports'' txt of
                   Inl _ \<Rightarrow> serviceStorage ?svc = serviceStorage svc
                 | Inr ls' \<Rightarrow> getItem (serviceStorage ?svc) ''error_reports'' = Inr (Some txt)))"
      using serviceStorage_storeError [of S r svc] t
      by (auto simp: re getItem_setItem split: option.splits sum.splits)
    from e t st show ?thesis
      by (simp add: length_slice_last)
  qed
  from len all step show ?thesis by blast
qed

lemma reportName_reportsBuilt:
  "map reportName (reportsBuilt sampleBtoa br sid calls) = map (errName \<circ> fst) calls"
  by (induction calls)
     (auto simp: reportsBuilt_def map_filter_simps buildReport_def generateFingerprint_def
        sampleBtoa_def reportName_def Let_def)

lemma map_slice_last: "map f (slice_last n xs) = slice_last n (map f xs)"
  by (simp add: slice_last_def drop_map)

lemma sampleStringifyReports_names:
  "sampleStringifyReports rs = Some (concat (map (\<lambda>n. n @ '';'') (map reportName rs)))"
  by (simp add: sampleStringifyReports_def reportName_def comp_def)

theorem reportError_bounded_history_witness:
  "length (errors (reportAll sampleBtoa sampleStringifyReports sampleBrowser
        (map numberedError [1..<102]) (newService ''session_1'' True fullStorage))) = 100
   \<and> map reportName (errors (reportAll sampleBtoa sampleStringifyReports sampleBrowser
        (map numberedError [1..<102]) (newService ''session_1'' True fullStorage)))
     = map numberedName [2..<102]
   \<and> buildReport sampleBtoa sampleBrowser
        (sessionId (reportAll sampleBtoa sampleStringifyReports sampleBrowser tenErrors sampleService))
        overflowError pageContext \<noteq> None
   \<and> getItem (serviceStorage (snd (reportError sampleBtoa sampleStringifyReports sampleBrowser
        overflowError pageContext
        (reportAll sampleBtoa sampleStringifyReports sampleBrowser tenErrors sampleService))))
        ''error_reports'' = Inr (Some ''b;c;d;e;f;g;h;i;j;overflow;'')"
proof -
  let ?many = "reportAll sampleBtoa sampleStringifyReports sampleBrowser
        (map numberedError [1..<102]) (newService ''session_1'' True fullStorage)"
  let ?ten = "reportAll sampleBtoa sampleStringifyReports sampleBrowser tenErrors sampleService"
  obtain r where b: "buildReport sampleBtoa sampleBrowser (sessionId ?ten) overflowError
      pageContext = Some r" and n: "reportName r = ''overflow''"
    by (simp add: buildReport_def generateFingerprint_def sampleBtoa_def Let_def
        overflowError_def reportName_def)
  note t = reportError_bounded_history [of sampleBtoa sampleStringifyReports sampleBrowser
      "map numberedError [1..<102]" "''session_1''" True fullStorage ?ten overflowError
      pageContext r]
  from t have all: "errors ?many
      = slice_last 100 (reportsBuilt sampleBtoa sampleBrowser ''session_1''
          (map numberedError [1..<102]))"
    by blast
  have names: "map reportName (errors ?many) = map numberedName [2..<102]"
  proof -
    have "map reportName (errors ?many)
        = slice_last 100 (map (errName \<circ> fst) (map numberedError [1..<102]))"
      by (simp only: all map_slice_last reportName_reportsBuilt)
    also have "map (errName \<circ> fst) (map numberedError [1..<102]) = map numberedName [1..<102]"
      by (simp add: numberedError_def del: upt_Suc upt_rec_numeral)
    also have "slice_last 100 (map numberedName [1..<102]) = map numberedName [2..<102]"
      by (simp add: slice_last_def drop_map numeral_2_eq_2 del: upt_Suc upt_rec_numeral)
    finally show ?thesis .
  qed
  then have "length (map reportName (errors ?many)) = length (map numberedName [2..<102])"
    by (rule arg_cong)
  then have len: "length (errors ?many) = 100"
    by (simp del: upt_Suc upt_rec_numeral)
  have e: "map reportName (errors ?ten)
      = [''a'', ''b'', ''c'', ''d'', ''e'', ''f'', ''g'', ''h'', ''i'', ''j'']"
    by code_simp
  then have "length (map reportName (errors ?ten)) = 10" by simp
  then have l: "length (errors ?ten) = 10" by simp
  have sl: "slice_last 10 (errors ?ten @ [r]) = drop 1 (errors ?ten) @ [r]"
    by (simp add: slice_last_def l)
  have "map reportName (slice_last 10 (errors ?ten @ [r]))
      = [''b'', ''c'', ''d'', ''e'', ''f'', ''g'', ''h'', ''i'', ''j'', ''overflow'']"
    by (simp add: sl n e drop_map [symmetric] del: drop_map)
  then have s: "sampleStringifyReports (slice_last 10 (errors ?ten @ [r]))
      = Some ''b;c;d;e;f;g;h;i;j;overflow;''"
    by (simp only: sampleStringifyReports_names) simp
  have st: "serviceStorage ?ten
      = \<lparr>items = [(''error_reports'', ''a;b;c;d;e;f;g;h;i;j;'')], denied = False, quota = 100\<rparr>"
    by code_simp
  have w: "setItem (serviceStorage ?ten) ''error_reports'' ''b;c;d;e;f;g;h;i;j;overflow;''
      = Inr \<lparr>items = [(''error_reports'', ''b;c;d;e;f;g;h;i;j;overflow;'')], denied = False,
             quota = 100\<rparr>"
    by (simp add: st setItem_def used_def)
  from t [THEN conjunct2, THEN conjunct2, rule_format, OF b]
  have "getItem (serviceStorage (snd (reportError sampleBtoa sampleStringifyReports sampleBrowser
        overflowError pageContext ?ten))) ''error_reports''
      = Inr (Some ''b;c;d;e;f;g;h;i;j;overflow;'')"
    by (simp add: s w)
  with len names b show ?thesis by simp
qed

section \<open>Claims about form validation\<close>

lemma nullable_lang: "nullable r \<longleftrightarrow> [] \<in> lang r"
  by (induction r) (auto intro: star.star_nil)

lemma star_cons:
  "a # w \<in> star L \<longleftrightarrow> (\<exists>u v. w = u @ v \<and> a # u \<in> L \<and> v \<in> star L)"
proof
  assume "a # w \<in> star L"
  then show "\<exists>u v. w = u @ v \<and> a # u \<in> L \<and> v \<in> star L"
  proof (induction "a # w" rule: star.induct)
    case (star_app u v)
    show ?case
    proof (cases u)
      case Nil
      with star_app show ?thesis by simp
    next
      case (Cons b u')
      with star_app.hyps show ?thesis by auto
    qed
  qed
next
  assume "\<exists>u v. w = u @ v \<and> a # u \<in> L \<and> v \<in> star L"
  then obtain u v where "w = u @ v" "a # u \<in> L" "v \<in> star L" by blast
  then have "(a # u) @ v \<in> star L" by (blast intro: star.star_app)
  with \<open>w = u @ v\<close> show "a # w \<in> star L" by simp
qed

lemma lang_SeqI: "u \<in> lang r \<Longrightarrow> v \<in> lang s \<Longrightarrow> u @ v \<in> lang (Seq r s)"
  by auto

lemma lang_deriv: "w \<in> lang (deriv a r) \<longleftrightarrow> a # w \<in> lang r"
proof (induction r arbitrary: w)
  case (Seq r s)
  show ?case
  proof
    assume d: "w \<in> lang (deriv a (Seq r s))"
    have left: "a # w \<in> lang (Seq r s)" if "w \<in> lang (Seq (deriv a r) s)"
    proof -
      from that obtain u v where "w = u @ v" "u \<in> lang (deriv a r)" "v \<in> lang s" by auto
      with Seq.IH(1) have "(a # u) @ v \<in> lang (Seq r s)" by (blast intro: lang_SeqI)
      with \<open>w = u @ v\<close> show ?thesis by simp
    qed
    have right: "a # w \<in> lang (Seq r s)" if "nullable r" "w \<in> lang (deriv a s)"
    proof -
      from that Seq.IH(2) have "[] \<in> lang r" and "a # w \<in> lang s"
        by (simp_all add: nullable_lang)
      then have "[] @ (a # w) \<in> lang (Seq r s)" by (rule lang_SeqI)
      then show ?thesis by simp
    qed
    from d left right show "a # w \<in> lang (Seq r s)"
      by (auto split: if_splits)
  next
    assume "a # w \<in> lang (Seq r s)"
    then obtain u v where uv: "a # w = u @ v" "u \<in> lang r" "v \<in> lang s" by auto
    show "w \<in> lang (deriv a (Seq r s))"
    proof (cases u)
      case Nil
      with uv have "nullable r" and "w \<in> lang (deriv a s)"
        by (simp_all add: nullable_lang Seq.IH(2))
      then show ?thesis by simp
    next
      case (Cons b u')
      with uv have "b = a" and w: "w = u' @ v" and "a # u' \<in> lang r" by simp_all
      then have "u' \<in> lang (deriv a r)" by (simp add: Seq.IH(1))
      from this uv(3) have "u' @ v \<in> lang (Seq (deriv a r) s)" by (rule lang_SeqI)
      with w show ?thesis by simp
    qed
  qed
next
  case (Star r)
  show ?case
  proof
    assume "w \<in> lang (deriv a (Star r))"
    then obtain u v where "w = u @ v" "u \<in> lang (deriv a r)" "v \<in> star (lang r)" by auto
    with Star.IH show "a # w \<in> lang (Star r)" by (auto simp: star_cons)
  next
    assume "a # w \<in> lang (Star r)"
    then obtain u v where "w = u @ v" "a # u \<in> lang r" "v \<in> star (lang r)"
      by (auto simp: star_cons)
    with Star.IH have "u @ v \<in> lang (Seq (deriv a r) (Star r))"
      by (intro lang_SeqI) simp_all
    with \<open>w = u @ v\<close> show "w \<in> lang (deriv a (Star r))" by simp
  qed
qed auto

lemma regex_test_lang: "regex_test r w \<longleftrightarrow> w \<in> lang r"
  by (induction w arbitrary: r) (simp_all add: nullable_lang lang_deriv)

lemma star_class: "w \<in> star {[a] |a. P a} \<longleftrightarrow> (\<forall>c\<in>set w. P c)"
proof
  assume "w \<in> star {[a] |a. P a}"
  then show "\<forall>c\<in>set w. P c" by (induction rule: star.induct) auto
next
  assume "\<forall>c\<in>set w. P c"
  then show "w \<in> star {[a] |a. P a}"
  proof (induction w)
    case Nil
    show ?case by (rule star.star_nil)
  next
    case (Cons c w)
    then have "[c] \<in> {[a] |a. P a}" and "w \<in> star {[a] |a. P a}" by auto
    then have "[c] @ w \<in> star {[a] |a. P a}" by (rule star.star_app)
    then show ?case by simp
  qed
qed

lemma lang_OneOrMore_Class: "w \<in> lang (OneOrMore (Class P)) \<longleftrightarrow> w \<noteq> [] \<and> (\<forall>c\<in>set w. P c)"
proof
  assume "w \<in> lang (OneOrMore (Class P))"
  then obtain a v where "w = [a] @ v" "P a" "v \<in> star {[a] |a. P a}"
    by (auto simp: OneOrMore_def)
  then show "w \<noteq> [] \<and> (\<forall>c\<in>set w. P c)" by (auto simp: star_class)
next
  assume a: "w \<noteq> [] \<and> (\<forall>c\<in>set w. P c)"
  then obtain c v where w: "w = c # v" by (cases w) auto
  with a have "[c] \<in> lang (Class P)" and "v \<in> lang (Star (Class P))"
    by (auto simp: star_class)
  then have "[c] @ v \<in> lang (Seq (Class P) (Star (Class P)))" by (rule lang_SeqI)
  with w show "w \<in> lang (OneOrMore (Class P))" by (simp add: OneOrMore_def)
qed

lemma lang_emailRegex: "e \<in> lang emailRegex \<longleftrightarrow> matchesEmailPattern e"
  unfolding emailRegex_def matchesEmailPattern_def
  by (simp add: lang_OneOrMore_Class list_all_iff) blast

lemma regex_test_emailRegex: "regex_test emailRegex e \<longleftrightarrow> matchesEmailPattern e"
  by (simp add: regex_test_lang lang_emailRegex)

lemma regex_test_usernameRegex:
  "regex_test usernameRegex e \<longleftrightarrow> e \<noteq> [] \<and> list_all usernameChar e"
  by (simp add: regex_test_lang usernameRegex_def lang_OneOrMore_Class list_all_iff)

lemma emailOrUsernameRefinement_iff:
  "emailOrUsernameRefinement e \<longleftrightarrow>
     matchesEmailPattern e \<or> (3 \<le> length e \<and> list_all usernameChar e)"
  by (auto simp: emailOrUsernameRefinement_def Let_def regex_test_emailRegex
      regex_test_usernameRegex)

lemma loginSchema_Inr:
  "loginSchema inp = Inr v \<longleftrightarrow>
     (\<exists>e p. emailOrUsername inp = ZString e \<and> password inp = ZString p
        \<and> e \<noteq> [] \<and> emailOrUsernameRefinement e
        \<and> 6 \<le> length p \<and> length p \<le> 128 \<and> v = LoginFormData e p)"
  by (cases "emailOrUsername inp"; cases "password inp")
     (auto simp: loginSchema_def z_string_def z_min_def z_max_def z_refine_def
        map_filter_simps Let_def split: list.splits)

lemma loginSchema_Inl:
  "loginSchema inp = Inl issues \<Longrightarrow>
     issues =
       map (Pair ''emailOrUsername'')
         (z_string
            [z_min 1 ''Username or email is required'',
             z_refine emailOrUsernameRefinement
               ''Please enter a valid email address or username (min 3 characters)'']
            (emailOrUsername inp))
       @ map (Pair ''password'')
         (z_string
            [z_min 6 ''Password must be at least 6 characters'',
             z_max 128 ''Password must be less than 128 characters'']
            (password inp))"
  by (auto simp: loginSchema_def Let_def split: list.splits zvalue.splits)

lemma loginSchema_issues_nonempty: "loginSchema inp \<noteq> Inl []"
  by (cases "emailOrUsername inp"; cases "password inp")
     (auto simp: loginSchema_def z_string_def Let_def split: list.splits)


text \<open>
  Claim C5. Validation by \<open>loginSchema\<close> succeeds exactly when \<open>emailOrUsername\<close> is a
  non-empty string that matches the email pattern or has at least 3 characters, all among
  \<open>a-z\<close>, \<open>A-Z\<close>, \<open>0-9\<close>, underscore, dot and hyphen, and \<open>password\<close> is a string of
  6 to 128 characters; the value returned is then these two strings. A failure returns
  issues and no value: the issues are not empty and hold, under the path of the field, the
  message of each check that the field fails, or \<open>invalid_type\<close> for a field that is
  not a string.
\<close>

theorem loginSchema_valid_iff:
  "((\<exists>v. loginSchema inp = Inr v) \<longleftrightarrow>
      (\<exists>e p. emailOrUsername inp = ZString e \<and> e \<noteq> []
         \<and> (e \<in> lang emailRegex \<or> (3 \<le> length e \<and> list_all usernameChar e))
         \<and> password inp = ZString p \<and> 6 \<le> length p \<and> length p \<le> 128))
   \<and> (loginSchema inp = Inr v \<longrightarrow>
        (\<exists>e p. emailOrUsername inp = ZString e \<and> password inp = ZString p
           \<and> v = LoginFormData e p))
   \<and> (loginSchema inp = Inl issues \<longrightarrow>
        issues \<noteq> []
        \<and> (emailOrUsername inp = ZString [] \<longrightarrow>
             (''emailOrUsername'', too_small, Some ''Username or email is required'')
               \<in> set issues)
        \<and> (\<forall>e. emailOrUsername inp = ZString e
               \<and> \<not> (e \<in> lang emailRegex \<or> (3 \<le> length e \<and> list_all usernameChar e)) \<longrightarrow>
             (''emailOrUsername'', custom,
              Some ''Please enter a valid email address or username (min 3 characters)'')
               \<in> set issues)
        \<and> (\<forall>p. password inp = ZString p \<and> length p < 6 \<longrightarrow>
             (''password'', too_small, Some ''Password must be at least 6 characters'')
               \<in> set issues)
        \<and> (\<forall>p. password inp = ZString p \<and> 128 < length p \<longrightarrow>
             (''password'', too_big, Some ''Password must be less than 128 characters'')
               \<in> set issues)
        \<and> ((\<forall>e. emailOrUsername inp \<noteq> ZString e) \<longrightarrow>
             (''emailOrUsername'', invalid_type, None) \<in> set issues)
        \<and> ((\<forall>p. password inp \<noteq> ZString p) \<longrightarrow>
             (''password'', invalid_type, None) \<in> set issues))"
proof -
  have ok: "(\<exists>v. loginSchema inp = Inr v) \<longleftrightarrow>
      (\<exists>e p. emailOrUsername inp = ZString e \<and> e \<noteq> []
         \<and> (e \<in> lang emailRegex \<or> (3 \<le> length e \<and> list_all usernameChar e))
         \<and> password inp = ZString p \<and> 6 \<le> length p \<and> length p \<le> 128)"
    by (simp add: loginSchema_Inr emailOrUsernameRefinement_iff lang_emailRegex) blast
  have val: "\<exists>e p. emailOrUsername inp = ZString e \<and> password inp = ZString p
           \<and> v = LoginFormData e p" if "loginSchema inp = Inr v"
    using that by (auto simp: loginSchema_Inr)
  have bad: "issues \<noteq> []
        \<and> (emailOrUsername inp = ZString [] \<longrightarrow>
             (''emailOrUsername'', too_small, Some ''Username or email is required'')
               \<in> set issues)
        \<and> (\<forall>e. emailOrUsername inp = ZString e
               \<and> \<not> (e \<in> lang emailRegex \<or> (3 \<le> length e \<and> list_all usernameChar e)) \<longrightarrow>
             (''emailOrUsername'', custom,
              Some ''Please enter a valid email address or username (min 3 characters)'')
               \<in> set issues)
        \<and> (\<forall>p. password inp = ZString p \<and> length p < 6 \<longrightarrow>
             (''password'', too_small, Some ''Password must be at least 6 characters'')
               \<in> set issues)
        \<and> (\<forall>p. password inp = ZString p \<and> 128 < length p \<longrightarrow>
             (''password'', too_big, Some ''Password must be less than 128 characters'')
               \<in> set issues)
        \<and> ((\<forall>e. emailOrUsername inp \<noteq> ZString e) \<longrightarrow>
             (''emailOrUsername'', invalid_type, None) \<in> set issues)
        \<and> ((\<forall>p. password inp \<noteq> ZString p) \<longrightarrow>
             (''password'', invalid_type, None) \<in> set issues)"
    if f: "loginSchema inp = Inl issues"
  proof -
    from f have ne: "issues \<noteq> []"
      using loginSchema_issues_nonempty [of inp] by auto
    note i = loginSchema_Inl [OF f]
    have e0: "(''emailOrUsername'', too_small, Some ''Username or email is required'') \<in> set issues"
      if "emailOrUsername inp = ZString []"
      using that by (simp add: i z_string_def z_min_def map_filter_simps)
    have e1: "(''emailOrUsername'', custom,
              Some ''Please enter a valid email address or username (min 3 characters)'')
               \<in> set issues"
      if "emailOrUsername inp = ZString e"
        and "\<not> (e \<in> lang emailRegex \<or> (3 \<le> length e \<and> list_all usernameChar e))" for e
    proof -
      from that(2) have "\<not> emailOrUsernameRefinement e"
        by (simp add: emailOrUsernameRefinement_iff lang_emailRegex)
      with that(1) show ?thesis
        by (auto simp: i z_string_def z_min_def z_refine_def map_filter_simps)
    qed
    have p0: "(''password'', too_small, Some ''Password must be at least 6 characters'')
               \<in> set issues" if "password inp = ZString p" and "length p < 6" for p
      using that by (simp add: i z_string_def z_min_def z_max_def map_filter_simps)
    have p1: "(''password'', too_big, Some ''Password must be less than 128 characters'')
               \<in> set issues" if "password inp = ZString p" and "128 < length p" for p
      using that by (simp add: i z_string_def z_min_def z_max_def map_filter_simps)
    have t0: "(''emailOrUsername'', invalid_type, None) \<in> set issues"
      if "\<forall>e. emailOrUsername inp \<noteq> ZString e"
      using that by (cases "emailOrUsername inp") (simp_all add: i z_string_def)
    have t1: "(''password'', invalid_type, None) \<in> set issues"
      if "\<forall>p. password inp \<noteq> ZString p"
      using that by (cases "password inp") (simp_all add: i z_string_def)
    from ne e0 e1 p0 p1 t0 t1 show ?thesis by blast
  qed
  from ok val bad show ?thesis by blast
qed

theorem loginSchema_valid_iff_witness:
  "loginSchema sampleLogin
     = Inr (LoginFormData (utf16 ''ana@example.com'') (utf16 ''secret1''))
   \<and> utf16 ''ana@example.com'' \<in> lang emailRegex
   \<and> loginSchema badLogin
     = Inl [(''emailOrUsername'', custom,
             Some ''Please enter a valid email address or username (min 3 characters)''),
            (''password'', too_small, Some ''Password must be at least 6 characters'')]
   \<and> password badLogin = ZString (utf16 ''abc'') \<and> length (utf16 ''abc'') < 6"
proof -
  have a: "loginSchema sampleLogin
     = Inr (LoginFormData (utf16 ''ana@example.com'') (utf16 ''secret1''))"
    by (simp add: sampleLogin_def loginSchema_def z_string_def z_min_def z_max_def z_refine_def
        map_filter_simps emailOrUsernameRefinement_def emailRegex_def usernameRegex_def OneOrMore_def
        utf16_def notSpaceOrAt_def whitespace_def usernameChar_def Let_def)
  have b: "loginSchema badLogin
     = Inl [(''emailOrUsername'', custom,
             Some ''Please enter a valid email address or username (min 3 characters)''),
            (''password'', too_small, Some ''Password must be at least 6 characters'')]"
    by (simp add: badLogin_def loginSchema_def z_string_def z_min_def z_max_def z_refine_def
        map_filter_simps emailOrUsernameRefinement_def emailRegex_def usernameRegex_def OneOrMore_def
        utf16_def notSpaceOrAt_def whitespace_def usernameChar_def Let_def)
  have ea: "emailOrUsername sampleLogin = ZString (utf16 ''ana@example.com'')"
    by (simp add: sampleLogin_def)
  have pb: "password badLogin = ZString (utf16 ''abc'') \<and> length (utf16 ''abc'') < 6"
    by (simp add: badLogin_def utf16_def)
  have un: "\<not> list_all usernameChar (utf16 ''ana@example.com'')"
    by (simp add: utf16_def usernameChar_def)
  from loginSchema_valid_iff [of sampleLogin, THEN conjunct1] a ea un
  have m: "utf16 ''ana@example.com'' \<in> lang emailRegex"
    by auto
  from a b m pb show ?thesis by blast
qed

end
